(* ===== verification/Prelude.thy ===== *)
theory Prelude
  imports Main "HOL-Library.Word" "HOL-Library.Signed_Division"
begin

text \<open>
  The shared vocabulary of the development: Go's machine types, byte slices and the
  big-endian codec of \<^verbatim>\<open>encoding/binary\<close>; buffered channels with the non-blocking
  send the program uses; and two generic interfaces as locales, one for a bounded FIFO
  (\<open>bounded_fifo\<close>) and one for a transition system with an invariant
  (\<open>transition_invariant\<close>). Every component theory builds on this one.
\<close>

unbundle bit_operations_syntax

named_theorems wire_simps \<open>sizes and slices of wire-format byte strings\<close>
named_theorems go_defs \<open>unfolding rules of the model's record-level operations\<close>

section \<open>Machine types\<close>

type_synonym byte = "8 word"
type_synonym bytes = "byte list"
type_synonym uint16 = "16 word"
type_synonym uint32 = "32 word"
type_synonym uint64 = "64 word"

text \<open>
  Go's \<^verbatim>\<open>int64\<close> and \<^verbatim>\<open>time.Duration\<close> are 64-bit two's complement: the same word type, read
  with \<^const>\<open>sint\<close>. Conversions between \<^verbatim>\<open>int64\<close> and \<^verbatim>\<open>uint64\<close> keep the bits, so they are the
  identity here.
\<close>

type_synonym int64 = "64 word"
type_synonym duration = "64 word"

definition go_less :: "int64 \<Rightarrow> int64 \<Rightarrow> bool" where
  "go_less a b \<longleftrightarrow> sint a < sint b"

text \<open>Go's integer division truncates towards zero.\<close>

definition go_div :: "int64 \<Rightarrow> int64 \<Rightarrow> int64" where
  "go_div a b = word_of_int (sint a sdiv sint b)"

lemma uint64_bounds: "0 \<le> uint (x :: uint64)" "uint (x :: uint64) < 18446744073709551616"
  using unsigned_less [of x, where 'a = int] by auto

lemma byte_bounds: "0 \<le> uint (x :: byte)" "uint (x :: byte) < 256"
  using unsigned_less [of x, where 'a = int] by auto

lemma uint16_bounds: "0 \<le> uint (x :: uint16)" "uint (x :: uint16) < 65536"
  using unsigned_less [of x, where 'a = int] by auto

section \<open>Big-endian integers (encoding/binary)\<close>

primrec put_be :: "nat \<Rightarrow> int \<Rightarrow> bytes" where
  "put_be 0 v = []"
| "put_be (Suc k) v = put_be k (v div 256) @ [of_int v]"

definition get_be :: "bytes \<Rightarrow> int" where
  "get_be b = foldl (\<lambda>a x. 256 * a + uint x) 0 b"

lemma put_be_numeral [simp]:
  "put_be (numeral n) v = put_be (pred_numeral n) (v div 256) @ [of_int v]"
  by (simp add: numeral_eq_Suc)

lemma get_be_Nil [simp]: "get_be [] = 0"
  by (simp add: get_be_def)

lemma get_be_snoc [simp]: "get_be (b @ [x]) = 256 * get_be b + uint x"
  by (simp add: get_be_def)

lemma length_put_be [simp]: "length (put_be k v) = k"
  by (induction k arbitrary: v) simp_all

lemma get_put_be: "get_be (put_be k v) = v mod 256 ^ k"
proof (induction k arbitrary: v)
  case 0
  then show ?case by simp
next
  case (Suc k)
  have "uint (of_int v :: byte) = v mod 256" by (simp add: uint_word_of_int)
  with Suc show ?case by (simp add: zmod_zmult2_eq)
qed

lemma of_int_shift_byte: "(of_int (256 * a + uint x) :: byte) = x"
proof -
  have z: "(256 :: byte) = 0" by simp
  show ?thesis unfolding of_int_add of_int_mult of_int_numeral z by simp
qed

lemma put_get_be: "put_be (length b) (get_be b) = b"
proof (induction b rule: rev_induct)
  case Nil
  then show ?case by simp
next
  case (snoc x xs)
  have "(256 * get_be xs + uint x) div 256 = get_be xs"
    using byte_bounds [of x] by simp
  then show ?case
    by (simp add: of_int_shift_byte snoc del: of_int_add of_int_mult)
qed

lemma get_be_nonneg: "0 \<le> get_be b"
  by (induction b rule: rev_induct) (simp_all add: byte_bounds)

lemma get_be_less: "get_be b < 256 ^ length b"
proof (induction b rule: rev_induct)
  case Nil
  then show ?case by simp
next
  case (snoc x xs)
  with byte_bounds [of x] show ?case by simp
qed

lemma take_put_be: "take j (put_be (j + k) v) = put_be j (v div 256 ^ k)"
proof (induction k arbitrary: v)
  case 0
  then show ?case by simp
next
  case (Suc k)
  then show ?case by (simp add: zdiv_zmult2_eq)
qed

definition PutUint16 :: "uint16 \<Rightarrow> bytes" where
  "PutUint16 v = put_be 2 (uint v)"

definition Uint16 :: "bytes \<Rightarrow> uint16" where
  "Uint16 b = word_of_int (get_be (take 2 b))"

definition PutUint64 :: "uint64 \<Rightarrow> bytes" where
  "PutUint64 v = put_be 8 (uint v)"

definition Uint64 :: "bytes \<Rightarrow> uint64" where
  "Uint64 b = word_of_int (get_be (take 8 b))"

lemma length_PutUint16 [simp, wire_simps]: "length (PutUint16 v) = 2"
  by (simp add: PutUint16_def del: put_be_numeral)

lemma length_PutUint64 [simp, wire_simps]: "length (PutUint64 v) = 8"
  by (simp add: PutUint64_def del: put_be_numeral)

lemma Uint16_Put [simp]: "Uint16 (PutUint16 v @ r) = v"
  using uint16_bounds [of v]
  by (simp add: Uint16_def PutUint16_def get_put_be del: put_be_numeral)

lemma Uint64_Put [simp]: "Uint64 (PutUint64 v @ r) = v"
  using uint64_bounds [of v]
  by (simp add: Uint64_def PutUint64_def get_put_be del: put_be_numeral)

lemmas Uint16_Put_Nil [simp] = Uint16_Put [of _ "[]", simplified]
lemmas Uint64_Put_Nil [simp] = Uint64_Put [of _ "[]", simplified]

lemma PutUint64_Uint64: "8 \<le> length b \<Longrightarrow> PutUint64 (Uint64 b) = take 8 b"
  using get_be_nonneg [of "take 8 b"] get_be_less [of "take 8 b"] put_get_be [of "take 8 b"]
  by (simp add: Uint64_def PutUint64_def uint_word_of_int del: put_be_numeral)

lemma PutUint16_Uint16: "2 \<le> length b \<Longrightarrow> PutUint16 (Uint16 b) = take 2 b"
  using get_be_nonneg [of "take 2 b"] get_be_less [of "take 2 b"] put_get_be [of "take 2 b"]
  by (simp add: Uint16_def PutUint16_def uint_word_of_int del: put_be_numeral)

lemma PutUint64_inj [simp]: "PutUint64 a = PutUint64 b \<longleftrightarrow> a = b"
  by (metis Uint64_Put_Nil)

lemma Uint16_take_PutUint64: "Uint16 (take 2 (PutUint64 n)) = word_of_int (uint n div 2 ^ 48)"
proof -
  have "take 2 (PutUint64 n) = put_be 2 (uint n div 2 ^ 48)"
    using take_put_be [of 2 6 "uint n"] by (simp add: PutUint64_def del: put_be_numeral)
  then show ?thesis
    by (simp add: Uint16_def get_put_be word_uint_eq_iff uint_word_of_int del: put_be_numeral)
qed

section \<open>Slices, indexing and run-time panics\<close>

text \<open>
  A Go function that can fail returns a value or an error; a bad index or slice bound, a
  nil dereference or a second \<^verbatim>\<open>close\<close> panics instead. The three outcomes are kept apart,
  so that the absence of panics is a theorem and not an assumption of the model. Indices are
  integers, as in Go: a negative bound panics too.
\<close>

datatype ('e, 'a) outcome = Ret 'a | Err 'e | Panic

definition go_index :: "'a list \<Rightarrow> int \<Rightarrow> 'a option" where
  "go_index b i = (if 0 \<le> i \<and> i < int (length b) then Some (b ! nat i) else None)"

definition go_slice :: "int \<Rightarrow> int \<Rightarrow> 'a list \<Rightarrow> 'a list option" where
  "go_slice i j b =
     (if 0 \<le> i \<and> i \<le> j \<and> j \<le> int (length b) then Some (take (nat (j - i)) (drop (nat i) b))
      else None)"

definition sub_slice :: "nat \<Rightarrow> nat \<Rightarrow> 'a list \<Rightarrow> 'a list" where
  "sub_slice i j b = take (j - i) (drop i b)"

lemma length_slice [simp, wire_simps]: "length (sub_slice i j b) = min (length b) j - i"
  by (auto simp: sub_slice_def)

lemma slice_append_mid: "i = length a \<Longrightarrow> j = i + length b \<Longrightarrow> sub_slice i j (a @ b @ c) = b"
  by (simp add: sub_slice_def)

lemma go_index_in: "i < length b \<Longrightarrow> go_index b (int i) = Some (b ! i)"
  by (simp add: go_index_def)

lemma go_slice_in: "i \<le> j \<Longrightarrow> j \<le> length b \<Longrightarrow> go_slice (int i) (int j) b = Some (sub_slice i j b)"
  by (simp add: go_slice_def sub_slice_def nat_diff_distrib)

lemma go_slice_None: "go_slice i j b = None \<longleftrightarrow> \<not> (0 \<le> i \<and> i \<le> j \<and> j \<le> int (length b))"
  by (simp add: go_slice_def)

section \<open>Bounded FIFO queues: Go's buffered channels\<close>

text \<open>
  What a producer and a consumer rely on when they share a buffered channel through a
  non-blocking send: the contents are a list of at most \<open>cap\<close> elements; a send appends
  at the end, or drops the element when the buffer is full and changes nothing; a receive
  takes the oldest element.
\<close>

locale bounded_fifo =
  fixes contents :: "'q \<Rightarrow> 'a list"
    and capacity :: "'q \<Rightarrow> nat"
    and try_send :: "'a \<Rightarrow> 'q \<Rightarrow> 'q \<times> bool"
    and recv :: "'q \<Rightarrow> ('a \<times> 'q) option"
  assumes send_room: "length (contents q) < capacity q \<Longrightarrow>
      contents (fst (try_send x q)) = contents q @ [x] \<and> snd (try_send x q)"
    and send_full: "capacity q \<le> length (contents q) \<Longrightarrow>
      fst (try_send x q) = q \<and> \<not> snd (try_send x q)"
    and send_capacity: "capacity (fst (try_send x q)) = capacity q"
    and recv_empty: "contents q = [] \<Longrightarrow> recv q = None"
    and recv_cons: "contents q = x # xs \<Longrightarrow>
      \<exists>q'. recv q = Some (x, q') \<and> contents q' = xs \<and> capacity q' = capacity q"
begin

primrec send_all :: "'a list \<Rightarrow> 'q \<Rightarrow> 'q" where
  "send_all [] q = q"
| "send_all (x # xs) q = send_all xs (fst (try_send x q))"

lemma send_bounded:
  "length (contents q) \<le> capacity q \<Longrightarrow> length (contents (fst (try_send x q))) \<le> capacity q"
  using send_room [of q x] send_full [of q x] by (cases "length (contents q) < capacity q") auto

lemma send_all_contents:
  assumes "length (contents q) \<le> capacity q"
  shows "contents (send_all xs q) = contents q @ take (capacity q - length (contents q)) xs"
  using assms
proof (induction xs arbitrary: q)
  case Nil
  then show ?case by simp
next
  case (Cons x xs)
  show ?case
  proof (cases "length (contents q) < capacity q")
    case True
    with Cons.IH [of "fst (try_send x q)"] send_room [OF True, of x] show ?thesis
      by (simp add: send_capacity take_Cons' Suc_diff_Suc)
  next
    case False
    with Cons.prems Cons.IH [of q] send_full [of q x] show ?thesis by simp
  qed
qed

lemma recv_contents: "recv q = Some (x, q') \<Longrightarrow> contents q = x # contents q'"
  using recv_empty [of q] recv_cons [of q] by (cases "contents q") auto

lemma recv_bounded:
  "recv q = Some (x, q') \<Longrightarrow> length (contents q) \<le> capacity q \<Longrightarrow>
   length (contents q') \<le> capacity q' \<and> capacity q' = capacity q"
  using recv_empty [of q] recv_cons [of q] by (cases "contents q") auto

end

text \<open>
  A Go buffered channel: the buffered values and the capacity given to \<^verbatim>\<open>make\<close>; whether a
  channel was closed is kept by the component that closes it. \<open>chan_try_send\<close> is
  \<^verbatim>\<open>select { case ch <- v: default: }\<close>; its flag tells which branch ran.
\<close>

record 'a chan =
  chan_buf :: "'a list"
  chan_cap :: nat

definition make_chan :: "nat \<Rightarrow> 'a chan" where
  "make_chan n = \<lparr>chan_buf = [], chan_cap = n\<rparr>"

definition chan_try_send :: "'a \<Rightarrow> 'a chan \<Rightarrow> 'a chan \<times> bool" where
  "chan_try_send v ch =
     (if length (chan_buf ch) < chan_cap ch
      then (ch\<lparr>chan_buf := chan_buf ch @ [v]\<rparr>, True) else (ch, False))"

definition chan_recv :: "'a chan \<Rightarrow> ('a \<times> 'a chan) option" where
  "chan_recv ch = (case chan_buf ch of [] \<Rightarrow> None | v # vs \<Rightarrow> Some (v, ch\<lparr>chan_buf := vs\<rparr>))"

definition chan_ok :: "'a chan \<Rightarrow> bool" where
  "chan_ok ch \<longleftrightarrow> length (chan_buf ch) \<le> chan_cap ch"

interpretation gochan: bounded_fifo chan_buf chan_cap chan_try_send chan_recv
  by unfold_locales (auto simp: chan_try_send_def chan_recv_def)

lemma chan_ok_make [simp]: "chan_ok (make_chan n)"
  by (simp add: chan_ok_def make_chan_def)

lemma chan_ok_send: "chan_ok ch \<Longrightarrow> chan_ok (fst (chan_try_send v ch))"
  using gochan.send_bounded [of ch v] by (simp add: chan_ok_def gochan.send_capacity)

lemma chan_ok_recv: "chan_recv ch = Some (v, ch') \<Longrightarrow> chan_ok ch \<Longrightarrow> chan_ok ch'"
  using gochan.recv_bounded [of ch v ch'] by (simp add: chan_ok_def)

section \<open>Transition systems\<close>

text \<open>
  A start predicate, a step relation and an invariant that holds at the start and that
  every step keeps. The reachable states then all satisfy the invariant.
\<close>

locale transition_invariant =
  fixes start :: "'s \<Rightarrow> bool"
    and step :: "'s \<Rightarrow> 's \<Rightarrow> bool"
    and inv :: "'s \<Rightarrow> bool"
  assumes inv_start: "start s \<Longrightarrow> inv s"
    and inv_step: "inv s \<Longrightarrow> step s t \<Longrightarrow> inv t"
begin

lemma inv_steps: "step\<^sup>*\<^sup>* s t \<Longrightarrow> inv s \<Longrightarrow> inv t"
  by (induction rule: rtranclp_induct) (auto intro: inv_step)

lemma inv_reachable: "start s \<Longrightarrow> step\<^sup>*\<^sup>* s t \<Longrightarrow> inv t"
  by (blast intro: inv_steps inv_start)

end

text \<open>
  A detailed system simulates an abstract one through a map of its states: a step of the detailed
  system from a good state leads to a good state, and the image of the step is a step of the abstract
  system or no change.
\<close>

locale simulation =
  fixes step :: "'s \<Rightarrow> 's \<Rightarrow> bool"
    and spec :: "'a \<Rightarrow> 'a \<Rightarrow> bool"
    and view :: "'s \<Rightarrow> 'a"
    and good :: "'s \<Rightarrow> bool"
  assumes good_step: "good s \<Longrightarrow> step s t \<Longrightarrow> good t"
    and view_step: "good s \<Longrightarrow> step s t \<Longrightarrow> view t = view s \<or> spec (view s) (view t)"
begin

lemma view_steps: "step\<^sup>*\<^sup>* s t \<Longrightarrow> good s \<Longrightarrow> good t \<and> spec\<^sup>*\<^sup>* (view s) (view t)"
proof (induction rule: rtranclp_induct)
  case (step t u)
  then show ?case using good_step view_step by (metis rtranclp.rtrancl_into_rtrancl)
qed simp

end

section \<open>Service loops\<close>

text \<open>
  The program's \<^verbatim>\<open>for { select ... }\<close> loops run until an iteration returns. What an
  iteration observes of its environment (a cancelled context, the result of a read, a clock)
  is one element of a script; a loop that uses up its script without returning is still
  waiting, which is the result \<^const>\<open>None\<close>.
\<close>

datatype 'r iteration = Continue | Return 'r

fun script_loop :: "('o \<Rightarrow> 's \<Rightarrow> 's \<times> 'r iteration) \<Rightarrow> 'o list \<Rightarrow> 's \<Rightarrow> 's \<times> 'r option" where
  "script_loop it [] s = (s, None)"
| "script_loop it (ob # obs) s =
     (case it ob s of (s', Continue) \<Rightarrow> script_loop it obs s' | (s', Return r) \<Rightarrow> (s', Some r))"

lemma script_loop_append:
  "script_loop it (xs @ ys) s =
     (case script_loop it xs s of (s', None) \<Rightarrow> script_loop it ys s' | (s', Some r) \<Rightarrow> (s', Some r))"
  by (induction xs arbitrary: s) (auto split: prod.splits iteration.splits)

lemma script_loop_returnedE:
  assumes "script_loop it obs s = (s', Some r)"
  obtains xs ob ys s1 where "obs = xs @ ob # ys" and "script_loop it xs s = (s1, None)"
    and "it ob s1 = (s', Return r)"
  using assms
proof (induction obs arbitrary: s thesis)
  case Nil
  then show ?case by simp
next
  case (Cons ob obs)
  obtain s1 x where it: "it ob s = (s1, x)" by fastforce
  show ?case
  proof (cases x)
    case Continue
    with it Cons.prems(2) have "script_loop it obs s1 = (s', Some r)" by simp
    then obtain xs ob' ys s2 where "obs = xs @ ob' # ys" "script_loop it xs s1 = (s2, None)"
      "it ob' s2 = (s', Return r)" by (rule Cons.IH [rotated])
    with it Continue show ?thesis by (intro Cons.prems(1) [of "ob # xs" ob' ys s2]) simp_all
  next
    case (Return r')
    with it Cons.prems(2) show ?thesis by (intro Cons.prems(1) [of "[]" ob obs s]) simp_all
  qed
qed

text \<open>
  A loop keeps an invariant while it continues and establishes a postcondition when it
  returns.
\<close>

locale loop_rule =
  fixes it :: "'o \<Rightarrow> 's \<Rightarrow> 's \<times> 'r iteration"
    and inv :: "'s \<Rightarrow> bool"
    and post :: "'s \<Rightarrow> 'r \<Rightarrow> bool"
  assumes continues: "inv s \<Longrightarrow> it ob s = (s', Continue) \<Longrightarrow> inv s'"
    and returns: "inv s \<Longrightarrow> it ob s = (s', Return r) \<Longrightarrow> post s' r"
begin

lemma loop_waiting: "inv s \<Longrightarrow> script_loop it obs s = (s', None) \<Longrightarrow> inv s'"
  by (induction obs arbitrary: s)
    (auto split: prod.splits iteration.splits dest: continues)

lemma loop_returned: "inv s \<Longrightarrow> script_loop it obs s = (s', Some r) \<Longrightarrow> post s' r"
  by (induction obs arbitrary: s)
    (auto split: prod.splits iteration.splits dest: continues returns)

end

text \<open>A property that every iteration keeps, whether it continues or returns.\<close>

locale loop_invariant =
  fixes it :: "'o \<Rightarrow> 's \<Rightarrow> 's \<times> 'r iteration"
    and inv :: "'s \<Rightarrow> bool"
  assumes keeps: "inv s \<Longrightarrow> it ob s = (s', x) \<Longrightarrow> inv s'"

sublocale loop_invariant \<subseteq> loop_rule it inv "\<lambda>s r. inv s"
  by unfold_locales (auto intro: keeps)

context loop_invariant
begin

lemma loop_keeps: "inv s \<Longrightarrow> inv (fst (script_loop it obs s))"
proof -
  assume s: "inv s"
  obtain s' r where e: "script_loop it obs s = (s', r)" by fastforce
  show "inv (fst (script_loop it obs s))"
  proof (cases r)
    case None
    with e loop_waiting [OF s, of obs s'] show ?thesis by simp
  next
    case (Some x)
    with e loop_returned [OF s, of obs s' x] show ?thesis by simp
  qed
qed

end

end
