(* ===== verification/Sha256.thy ===== *)
theory Sha256
  imports Prelude
begin

text \<open>
  The two standard-library primitives of \<^verbatim>\<open>Codec.computeHMAC\<close>: SHA-256
  (\<^verbatim>\<open>crypto/sha256\<close>, FIPS 180-4) and HMAC over it (\<^verbatim>\<open>crypto/hmac\<close>, FIPS 198-1),
  as executable functions on bytes, and the one fact the wire format rests on: a digest
  is always 32 bytes long.
\<close>

section \<open>The compression function\<close>

definition RotateRight32 :: "nat \<Rightarrow> uint32 \<Rightarrow> uint32" where
  "RotateRight32 n x = drop_bit n x OR push_bit (32 - n) x"

text \<open>The round constants and the initial hash value, in decimal.\<close>

definition sha_k :: "uint32 list" where
  "sha_k =
    [1116352408, 1899447441, 3049323471, 3921009573, 961987163, 1508970993,
     2453635748, 2870763221, 3624381080, 310598401, 607225278, 1426881987,
     1925078388, 2162078206, 2614888103, 3248222580, 3835390401, 4022224774,
     264347078, 604807628, 770255983, 1249150122, 1555081692, 1996064986,
     2554220882, 2821834349, 2952996808, 3210313671, 3336571891, 3584528711,
     113926993, 338241895, 666307205, 773529912, 1294757372, 1396182291,
     1695183700, 1986661051, 2177026350, 2456956037, 2730485921, 2820302411,
     3259730800, 3345764771, 3516065817, 3600352804, 4094571909, 275423344,
     430227734, 506948616, 659060556, 883997877, 958139571, 1322822218,
     1537002063, 1747873779, 1955562222, 2024104815, 2227730452, 2361852424,
     2428436474, 2756734187, 3204031479, 3329325298]"

definition sha_init :: "uint32 list" where
  "sha_init =
    [1779033703, 3144134277, 1013904242, 2773480762, 1359893119, 2600822924,
     528734635, 1541459225]"

text \<open>
  The message schedule: the sixteen words of the block, then 48 words computed from the
  ones before. The list is kept newest first, so the offsets are constants.
\<close>

primrec sha_schedule :: "nat \<Rightarrow> uint32 list \<Rightarrow> uint32 list" where
  "sha_schedule 0 w = rev w"
| "sha_schedule (Suc n) w =
     (let v1 = w ! 1; t1 = RotateRight32 17 v1 XOR RotateRight32 19 v1 XOR drop_bit 10 v1;
          v2 = w ! 14; t2 = RotateRight32 7 v2 XOR RotateRight32 18 v2 XOR drop_bit 3 v2
      in sha_schedule n ((t1 + w ! 6 + t2 + w ! 15) # w))"

type_synonym sha_regs = "uint32 \<times> uint32 \<times> uint32 \<times> uint32 \<times> uint32 \<times> uint32 \<times> uint32 \<times> uint32"

fun sha_round :: "sha_regs \<Rightarrow> uint32 \<times> uint32 \<Rightarrow> sha_regs" where
  "sha_round (a, b, c, d, e, f, g, h) (k, w) =
     (let t1 = h + (RotateRight32 6 e XOR RotateRight32 11 e XOR RotateRight32 25 e)
                 + ((e AND f) XOR (NOT e AND g)) + k + w;
          t2 = (RotateRight32 2 a XOR RotateRight32 13 a XOR RotateRight32 22 a)
                 + ((a AND b) XOR (a AND c) XOR (b AND c))
      in (t1 + t2, a, b, c, d + t1, e, f, g))"

definition regs_of :: "uint32 list \<Rightarrow> sha_regs" where
  "regs_of r = (r ! 0, r ! 1, r ! 2, r ! 3, r ! 4, r ! 5, r ! 6, r ! 7)"

fun list_of_regs :: "sha_regs \<Rightarrow> uint32 list" where
  "list_of_regs (a, b, c, d, e, f, g, h) = [a, b, c, d, e, f, g, h]"

fun words_of_bytes :: "bytes \<Rightarrow> uint32 list" where
  "words_of_bytes (a # b # c # d # r) =
     word_of_int (get_be [a, b, c, d]) # words_of_bytes r"
| "words_of_bytes _ = []"

definition sha_block :: "uint32 list \<Rightarrow> bytes \<Rightarrow> uint32 list" where
  "sha_block hs p =
     map2 (+) hs (list_of_regs
       (foldl sha_round (regs_of hs) (zip sha_k (sha_schedule 48 (rev (words_of_bytes p))))))"

fun sha_blocks :: "uint32 list \<Rightarrow> bytes \<Rightarrow> uint32 list" where
  "sha_blocks hs p =
     (if length p < 64 then hs else sha_blocks (sha_block hs (take 64 p)) (drop 64 p))"

declare sha_blocks.simps [simp del]

text \<open>Padding: a one bit, zeros up to 56 bytes modulo 64, the length in bits.\<close>

definition sha_pad :: "bytes \<Rightarrow> bytes" where
  "sha_pad p =
     (let n = length p;
          t = (if n mod 64 < 56 then 56 - n mod 64 else 64 + 56 - n mod 64)
      in p @ 0x80 # replicate (t - 1) 0 @ put_be 8 (int n * 8))"

definition sha256 :: "bytes \<Rightarrow> bytes" where
  "sha256 p = concat (map (\<lambda>w. put_be 4 (uint w)) (sha_blocks sha_init (sha_pad p)))"

lemma length_list_of_regs [simp]: "length (list_of_regs r) = 8"
  by (cases r rule: list_of_regs.cases) simp

lemma length_sha_block: "length hs = 8 \<Longrightarrow> length (sha_block hs p) = 8"
  by (simp add: sha_block_def)

lemma length_sha_blocks: "length hs = 8 \<Longrightarrow> length (sha_blocks hs p) = 8"
proof (induction hs p rule: sha_blocks.induct)
  case (1 hs p)
  show ?case
  proof (cases "length p < 64")
    case True
    with 1 show ?thesis by (simp add: sha_blocks.simps [of hs p])
  next
    case False
    with 1 show ?thesis by (simp add: sha_blocks.simps [of hs p] length_sha_block)
  qed
qed

lemma length_concat_const: "(\<And>x. x \<in> set xs \<Longrightarrow> length (f x) = k) \<Longrightarrow> length (concat (map f xs)) = k * length xs"
  by (induction xs) auto

lemma length_sha256 [simp]: "length (sha256 p) = 32"
  by (simp add: sha256_def length_concat_const [where k = 4] length_sha_blocks sha_init_def
      del: put_be_numeral)

lemma sha_pad_blocks: "length (sha_pad p) mod 64 = 0"
proof -
  define m q where "m = length p mod 64" and "q = length p div 64"
  have m: "m < 64" and split: "length p = 64 * q + m" by (simp_all add: m_def q_def)
  show ?thesis
  proof (cases "m < 56")
    case True
    then have "length (sha_pad p) = length p + (56 - m) + 8"
      by (simp add: sha_pad_def Let_def m_def del: put_be_numeral)
    also have "\<dots> = 64 * (q + 1)" using True split by simp
    finally show ?thesis by simp
  next
    case False
    with m have "length (sha_pad p) = length p + (120 - m) + 8"
      by (simp add: sha_pad_def Let_def m_def del: put_be_numeral)
    also have "\<dots> = 64 * (q + 2)" using m split by simp
    finally show ?thesis by simp
  qed
qed

section \<open>HMAC\<close>

definition hmac_key :: "bytes \<Rightarrow> bytes" where
  "hmac_key k = (let k' = if 64 < length k then sha256 k else k
                 in k' @ replicate (64 - length k') 0)"

definition hmac_sha256 :: "bytes \<Rightarrow> bytes \<Rightarrow> bytes" where
  "hmac_sha256 k data =
     sha256 (map (\<lambda>b. b XOR 0x5c) (hmac_key k)
       @ sha256 (map (\<lambda>b. b XOR 0x36) (hmac_key k) @ data))"

lemma length_hmac_key: "length (hmac_key k) = 64"
  by (simp add: hmac_key_def Let_def)

lemma length_hmac_sha256 [simp, wire_simps]: "length (hmac_sha256 k data) = 32"
  by (simp add: hmac_sha256_def)

text \<open>
  \<^verbatim>\<open>hmac.Equal\<close> is \<^verbatim>\<open>subtle.ConstantTimeCompare\<close>: unequal lengths
  differ, otherwise the differences of all bytes are collected before the one test.
\<close>

definition hmac_Equal :: "bytes \<Rightarrow> bytes \<Rightarrow> bool" where
  "hmac_Equal a b \<longleftrightarrow>
     length a = length b \<and> fold (\<lambda>(x, y) v. v OR (x XOR y)) (zip a b) (0 :: byte) = 0"

lemma fold_or_xor_zero:
  "length a = length b \<Longrightarrow>
   fold (\<lambda>(x, y) v. v OR (x XOR y)) (zip a b) (v :: byte) = 0 \<longleftrightarrow> v = 0 \<and> a = b"
proof (induction a b arbitrary: v rule: list_induct2)
  case Nil
  then show ?case by simp
next
  case (Cons x xs y ys)
  have "v OR (x XOR y) = 0 \<longleftrightarrow> v = 0 \<and> x = y"
    by (metis or_eq_0_iff xor_self_eq bit.xor_self xor.right_neutral xor.assoc xor.left_neutral)
  with Cons show ?case by auto
qed

lemma hmac_Equal_iff [simp]: "hmac_Equal a b \<longleftrightarrow> a = b"
  by (auto simp: hmac_Equal_def fold_or_xor_zero)

section \<open>The contract of a message authentication code\<close>

text \<open>
  What the wire format relies on: tags have a fixed size, and verification accepts exactly
  the tag the key gives. From this alone a tag appended to a message splits off again.
\<close>

locale mac_scheme =
  fixes mac :: "bytes \<Rightarrow> bytes \<Rightarrow> bytes"
    and verify :: "bytes \<Rightarrow> bytes \<Rightarrow> bytes \<Rightarrow> bool"
    and size :: nat
  assumes mac_size: "length (mac k d) = size"
    and verify_iff: "verify k d s \<longleftrightarrow> s = mac k d"
begin

lemma tag_split:
  "take (length (d @ mac k d) - size) (d @ mac k d) = d"
  "drop (length (d @ mac k d) - size) (d @ mac k d) = mac k d"
  by (simp_all add: mac_size)

lemma verify_tagged:
  "verify k (take (length (d @ mac k d) - size) (d @ mac k d))
            (drop (length (d @ mac k d) - size) (d @ mac k d))"
  by (simp only: tag_split verify_iff)

lemma verified_is_tagged:
  assumes "verify k (take (length m - size) m) (drop (length m - size) m)"
  shows "m = take (length m - size) m @ mac k (take (length m - size) m)"
proof -
  have "drop (length m - size) m = mac k (take (length m - size) m)"
    using assms by (simp only: verify_iff)
  with append_take_drop_id [of "length m - size" m] show ?thesis by metis
qed

end

interpretation hmac: mac_scheme hmac_sha256 "\<lambda>k d s. hmac_Equal (hmac_sha256 k d) s" 32
  by unfold_locales auto

end
