(* ===== verification/GoStd.thy ===== *)
theory GoStd
  imports Prelude
begin

text \<open>
  The string and address functions of Go's standard library that the program calls:
  decimal and hexadecimal formatting (\<^verbatim>\<open>fmt\<close>), ASCII case folding, trimming, searching
  and joining (\<^verbatim>\<open>strings\<close>), MAC and IP addresses (\<^verbatim>\<open>net\<close>). A Go string is
  a byte string; case folding and trimming are those of ASCII text.
\<close>

section \<open>fmt: decimal and hexadecimal verbs\<close>

definition digit_char :: "nat \<Rightarrow> char" where
  "digit_char d = (if d < 10 then char_of (48 + d) else char_of (87 + d))"

definition upper_digit_char :: "nat \<Rightarrow> char" where
  "upper_digit_char d = (if d < 10 then char_of (48 + d) else char_of (55 + d))"

fun digits :: "nat \<Rightarrow> nat \<Rightarrow> nat list" where
  "digits base n = (if n < base \<or> base < 2 then [n] else digits base (n div base) @ [n mod base])"

declare digits.simps [simp del]

lemma digits_less: "1 < base \<Longrightarrow> d \<in> set (digits base n) \<Longrightarrow> d < base"
proof (induction base n rule: digits.induct)
  case (1 base n)
  show ?case
  proof (cases "n < base")
    case True
    with 1(3) show ?thesis by (simp add: digits.simps)
  next
    case False
    with 1(2,3) have "d \<in> set (digits base (n div base)) \<or> d = n mod base"
      by (subst (asm) digits.simps) auto
    with 1(1,2) False show ?thesis by auto
  qed
qed

definition pad_left :: "char \<Rightarrow> nat \<Rightarrow> string \<Rightarrow> string" where
  "pad_left c w s = replicate (w - length s) c @ s"

definition fmt_d :: "nat \<Rightarrow> string" where
  "fmt_d n = map digit_char (digits 10 n)"

definition fmt_0d :: "nat \<Rightarrow> nat \<Rightarrow> string" where
  "fmt_0d w n = pad_left (CHR ''0'') w (fmt_d n)"

definition fmt_02x :: "byte \<Rightarrow> string" where
  "fmt_02x b = [digit_char (unat b div 16), digit_char (unat b mod 16)]"

definition fmt_04X :: "uint16 \<Rightarrow> string" where
  "fmt_04X v = map (\<lambda>i. upper_digit_char (unat v div 16 ^ i mod 16)) [3, 2, 1, 0]"

section \<open>strings\<close>

definition to_lower_char :: "char \<Rightarrow> char" where
  "to_lower_char c = (if 65 \<le> (of_char c :: nat) \<and> (of_char c :: nat) \<le> 90
                      then char_of ((of_char c :: nat) + 32) else c)"

definition ToLower :: "string \<Rightarrow> string" where
  "ToLower s = map to_lower_char s"

definition is_space :: "char \<Rightarrow> bool" where
  "is_space c \<longleftrightarrow> (of_char c :: nat) \<in> {9, 10, 11, 12, 13, 32}"

definition TrimSpace :: "string \<Rightarrow> string" where
  "TrimSpace s = rev (dropWhile is_space (rev (dropWhile is_space s)))"

fun Contains :: "string \<Rightarrow> string \<Rightarrow> bool" where
  "Contains [] sub = (sub = [])"
| "Contains (c # s) sub = (take (length sub) (c # s) = sub \<or> Contains s sub)"

fun Join :: "string list \<Rightarrow> string \<Rightarrow> string" where
  "Join [] sep = []"
| "Join [x] sep = x"
| "Join (x # y # zs) sep = x @ sep @ Join (y # zs) sep"

definition ReplaceAll_char :: "char \<Rightarrow> char \<Rightarrow> string \<Rightarrow> string" where
  "ReplaceAll_char old new s = map (\<lambda>c. if c = old then new else c) s"

section \<open>net: hardware addresses\<close>

type_synonym HardwareAddr = bytes

definition HardwareAddr_String :: "HardwareAddr \<Rightarrow> string" where
  "HardwareAddr_String a = Join (map fmt_02x a) '':''"

definition hex_value :: "char \<Rightarrow> nat option" where
  "hex_value c =
     (let n = (of_char c :: nat) in
      if 48 \<le> n \<and> n \<le> 57 then Some (n - 48)
      else if 97 \<le> n \<and> n \<le> 102 then Some (n - 87)
      else if 65 \<le> n \<and> n \<le> 70 then Some (n - 55)
      else None)"

text \<open>Two hexadecimal digits, followed by the end of the string or by the separator \<open>e\<close>.\<close>

definition xtoi2 :: "string \<Rightarrow> char option \<Rightarrow> byte option" where
  "xtoi2 s e =
     (if 2 < length s \<and> e \<noteq> Some (s ! 2) then None
      else case s of
        c # d # _ \<Rightarrow> (case (hex_value c, hex_value d) of
            (Some x, Some y) \<Rightarrow> Some (of_nat (16 * x + y)) | _ \<Rightarrow> None)
      | _ \<Rightarrow> None)"

fun mac_colon_loop :: "nat \<Rightarrow> char \<Rightarrow> string \<Rightarrow> bytes option" where
  "mac_colon_loop 0 e s = Some []"
| "mac_colon_loop (Suc n) e s =
     (case xtoi2 s (Some e) of None \<Rightarrow> None
      | Some b \<Rightarrow> map_option ((#) b) (mac_colon_loop n e (drop 3 s)))"

fun mac_dot_loop :: "nat \<Rightarrow> char \<Rightarrow> string \<Rightarrow> bytes option" where
  "mac_dot_loop 0 e s = Some []"
| "mac_dot_loop (Suc n) e s =
     (case (xtoi2 (take 2 s) None, xtoi2 (drop 2 s) (Some e)) of
        (Some a, Some b) \<Rightarrow> map_option (\<lambda>r. a # b # r) (mac_dot_loop n e (drop 5 s))
      | _ \<Rightarrow> None)"

definition net_ParseMAC :: "string \<Rightarrow> HardwareAddr option" where
  "net_ParseMAC s =
     (if length s < 14 then None
      else if s ! 2 = CHR '':'' \<or> s ! 2 = CHR ''-'' then
        (if (length s + 1) mod 3 \<noteq> 0 then None
         else let n = (length s + 1) div 3
              in if n \<noteq> 6 \<and> n \<noteq> 8 \<and> n \<noteq> 20 then None else mac_colon_loop n (s ! 2) s)
      else if s ! 4 = CHR ''.'' then
        (if (length s + 1) mod 5 \<noteq> 0 then None
         else let n = 2 * (length s + 1) div 5
              in if n \<noteq> 6 \<and> n \<noteq> 8 \<and> n \<noteq> 20 then None else mac_dot_loop (n div 2) (s ! 4) s)
      else None)"

lemma hex_value_digit_char: "d < 16 \<Longrightarrow> hex_value (digit_char d) = Some d"
  by (auto simp: hex_value_def digit_char_def Let_def)

lemma xtoi2_fmt_02x:
  assumes "s = [] \<or> (\<exists>r. s = e # r)"
  shows "xtoi2 (fmt_02x b @ s) (Some e) = Some b"
proof -
  have "unat b < 256" using unsigned_less [of b, where 'a = nat] by simp
  then have "unat b div 16 < 16" and "unat b mod 16 < 16" by auto
  then show ?thesis using assms
    by (auto simp: xtoi2_def fmt_02x_def hex_value_digit_char)
qed

text \<open>A printed hardware address of one of the accepted lengths parses to itself.\<close>

lemma length_Join_02x: "m \<noteq> [] \<Longrightarrow> length (Join (map fmt_02x m) [e]) + 1 = 3 * length m"
proof (induction m)
  case Nil
  then show ?case by simp
next
  case (Cons b m)
  then show ?case by (cases m) (simp_all add: fmt_02x_def)
qed

lemma mac_colon_loop_Join:
  "m \<noteq> [] \<Longrightarrow> mac_colon_loop (length m) e (Join (map fmt_02x m) [e]) = Some m"
proof (induction m)
  case Nil
  then show ?case by simp
next
  case (Cons b m)
  show ?case
  proof (cases m)
    case Nil
    then show ?thesis using xtoi2_fmt_02x [of "[]" e b] by simp
  next
    case (Cons b' m')
    have "drop 3 (fmt_02x b @ e # r) = r" for r by (simp add: fmt_02x_def)
    then show ?thesis
      using Cons.IH Cons xtoi2_fmt_02x [of "e # Join (map fmt_02x m) [e]" e b] by simp
  qed
qed

lemma Join_02x_sep:
  assumes "2 \<le> length m"
  shows "Join (map fmt_02x m) [e] ! 2 = e"
proof -
  obtain a b r where "m = a # b # r" using assms by (metis Suc_le_length_iff numeral_2_eq_2)
  then show ?thesis by (simp add: fmt_02x_def nth_append)
qed

lemma net_ParseMAC_String:
  assumes "length m = 6 \<or> length m = 8 \<or> length m = 20"
  shows "net_ParseMAC (HardwareAddr_String m) = Some m"
proof -
  have ne: "m \<noteq> []" and two: "2 \<le> length m" using assms by auto
  let ?s = "HardwareAddr_String m"
  have len: "length ?s + 1 = 3 * length m"
    using length_Join_02x [OF ne] by (simp add: HardwareAddr_String_def)
  have "?s ! 2 = CHR '':''" using Join_02x_sep [OF two] by (simp add: HardwareAddr_String_def)
  moreover have "mac_colon_loop (length m) (CHR '':'') ?s = Some m"
    using mac_colon_loop_Join [OF ne] by (simp add: HardwareAddr_String_def)
  moreover have "\<not> length ?s < 14" "(length ?s + 1) mod 3 = 0" "(length ?s + 1) div 3 = length m"
    using len assms by auto
  ultimately show ?thesis using assms unfolding net_ParseMAC_def Let_def by auto
qed
section \<open>net: IP addresses\<close>

text \<open>The dotted form of an IPv4 address, and of one mapped into IPv6.\<close>

definition ipv4_String :: "bytes \<Rightarrow> string" where
  "ipv4_String b = Join (map (\<lambda>x. fmt_d (unat x)) b) ''.''"

definition fmt_x :: "nat \<Rightarrow> string" where
  "fmt_x n = map digit_char (digits 16 n)"

fun ipv6_groups :: "bytes \<Rightarrow> nat list" where
  "ipv6_groups (a # b # r) = (256 * unat a + unat b) # ipv6_groups r"
| "ipv6_groups r = []"

text \<open>The first longest run of at least two zero groups, as start and length.\<close>

definition zero_run :: "nat list \<Rightarrow> nat \<times> nat" where
  "zero_run gs =
     foldl (\<lambda>(s, n) i. let l = length (takeWhile (\<lambda>g. g = 0) (drop i gs))
                       in if 2 \<le> l \<and> n < l then (i, l) else (s, n)) (0, 0) [0..<length gs]"

definition ipv6_String :: "bytes \<Rightarrow> string" where
  "ipv6_String b =
     (let gs = ipv6_groups b; (s, n) = zero_run gs; join = (\<lambda>xs. Join (map fmt_x xs) '':'')
      in if n = 0 then join gs else join (take s gs) @ ''::'' @ join (drop (s + n) gs))"

definition IP_String :: "bytes \<Rightarrow> string" where
  "IP_String ip =
     (if ip = [] then ''<nil>''
      else if length ip = 4 then ipv4_String ip
      else if length ip = 16 then
        (if take 12 ip = replicate 10 0 @ [255, 255] then ipv4_String (drop 12 ip) else ipv6_String ip)
      else ''?'' @ concat (map fmt_02x ip))"

definition JoinHostPort :: "string \<Rightarrow> string \<Rightarrow> string" where
  "JoinHostPort host port =
     (if CHR '':'' \<in> set host then ''['' @ host @ '']:'' @ port else host @ '':'' @ port)"

end
