(* ===== verification/Protocol.thy ===== *)
theory Protocol
  imports Sha256 GoStd
begin

text \<open>
  The wire protocol, \<^verbatim>\<open>src/internal/protocol/protocol.go\<close>: the codec with its
  pre-shared key, its outgoing nonce counter and its replay window, the encoders of the
  six message types, and the two-stage decoder. The lemmas show the round trip of every
  message, exactly which datagrams a keyed codec accepts, that decoding never panics, and
  what the nonce window does and does not guarantee.
\<close>

section \<open>Constants\<close>

definition ProtocolVersion :: uint16 where [simp]: "ProtocolVersion = 1"

definition MsgFrame :: byte where [simp]: "MsgFrame = 0x00"
definition MsgHello :: byte where [simp]: "MsgHello = 0x01"
definition MsgHelloAck :: byte where [simp]: "MsgHelloAck = 0x02"
definition MsgPing :: byte where [simp]: "MsgPing = 0x03"
definition MsgPong :: byte where [simp]: "MsgPong = 0x04"
definition MsgBye :: byte where [simp]: "MsgBye = 0x05"

definition NonceSize :: nat where [simp]: "NonceSize = 8"
definition HMACSize :: nat where [simp]: "HMACSize = 32"
definition ChallengeSize :: nat where [simp]: "ChallengeSize = 16"
definition ChallengeRespLen :: nat where [simp]: "ChallengeRespLen = 32"
definition MinHeaderSize :: nat where [simp]: "MinHeaderSize = 1"
definition MaxFrameSize :: nat where [simp]: "MaxFrameSize = 1514"
definition MinEthernetFrame :: nat where [simp]: "MinEthernetFrame = 14"
definition HelloPayloadSize :: nat where [simp]: "HelloPayloadSize = 2 + ChallengeSize"
definition HelloAckPayloadSize :: nat where [simp]: "HelloAckPayloadSize = 2 + ChallengeRespLen"
definition PingPongPayloadSize :: nat where [simp]: "PingPongPayloadSize = 8"

text \<open>
  The sentinel errors, each with the values its \<^verbatim>\<open>fmt.Errorf\<close> wrapper adds. The encoders'
  own errors (\<^verbatim>\<open>EncodeFrame\<close>, \<^verbatim>\<open>EncodeHello\<close>) have no sentinel.
\<close>

datatype payload_defect = FrameTooSmall nat | FrameTooLarge nat | PayloadTooSmall byte

datatype proto_error =
    ErrMessageTooShort
  | ErrInvalidHMAC
  | ErrReplayDetected
  | ErrUnknownMsgType byte
  | ErrInvalidPayload payload_defect
  | ErrVersionMismatch uint16
  | ErrFrameSize nat
  | ErrChallengeGen

section \<open>The codec\<close>

record Codec =
  psk :: bytes
  sendNonce :: uint64
  recvNonce :: uint64
  secureMode :: bool

definition NewCodec :: "bytes \<Rightarrow> Codec" where
  "NewCodec k = \<lparr>psk = k, sendNonce = 0, recvNonce = 0, secureMode = (length k > 0)\<rparr>"

definition IsSecure :: "Codec \<Rightarrow> bool" where
  "IsSecure c = secureMode c"

definition nextNonce :: "Codec \<Rightarrow> Codec \<times> uint64" where
  "nextNonce c = (let n = sendNonce c + 1 in (c\<lparr>sendNonce := n\<rparr>, n))"

definition computeHMAC :: "Codec \<Rightarrow> bytes \<Rightarrow> bytes" where
  "computeHMAC c data = hmac_sha256 (psk c) data"

definition verifyHMAC :: "Codec \<Rightarrow> bytes \<Rightarrow> bytes \<Rightarrow> bool" where
  "verifyHMAC c data sig = (let expected = computeHMAC c data in hmac_Equal expected sig)"

definition encode :: "Codec \<Rightarrow> byte \<Rightarrow> bytes \<Rightarrow> Codec \<times> bytes" where
  "encode c msgType payload =
     (if secureMode c then
        (case nextNonce c of (c', nonce) \<Rightarrow>
           let msg = msgType # PutUint64 nonce @ payload;
               mac = computeHMAC c' msg
           in (c', msg @ mac))
      else (c, msgType # payload))"

definition decode :: "Codec \<Rightarrow> bytes \<Rightarrow> Codec \<times> (proto_error, byte \<times> bytes) outcome" where
  "decode c data =
     (if length data < MinHeaderSize then (c, Err ErrMessageTooShort)
      else if secureMode c then
        (let minLen = 1 + NonceSize + HMACSize in
         if length data < minLen then (c, Err ErrMessageTooShort)
         else
           let payloadEnd = int (length data) - int HMACSize in
           case (go_index data 0, go_slice 1 9 data, go_slice 9 payloadEnd data,
                 go_slice payloadEnd (int (length data)) data, go_slice 0 payloadEnd data) of
             (Some msgType, Some nonceBytes, Some payload, Some sig, Some body) \<Rightarrow>
               (let nonce = Uint64 nonceBytes in
                if \<not> verifyHMAC c body sig then (c, Err ErrInvalidHMAC)
                else if msgType \<noteq> MsgHello \<and> msgType \<noteq> MsgHelloAck then
                  (if nonce > 0 \<and> nonce \<le> recvNonce c then (c, Err ErrReplayDetected)
                   else (c\<lparr>recvNonce := nonce\<rparr>, Ret (msgType, payload)))
                else (c, Ret (msgType, payload)))
           | _ \<Rightarrow> (c, Panic))
      else
        (case (go_index data 0, go_slice 1 (int (length data)) data) of
           (Some msgType, Some payload) \<Rightarrow> (c, Ret (msgType, payload))
         | _ \<Rightarrow> (c, Panic)))"

section \<open>Encoders\<close>

definition EncodeFrame :: "Codec \<Rightarrow> bytes \<Rightarrow> Codec \<times> (proto_error, bytes) outcome" where
  "EncodeFrame c frame =
     (if length frame < MinEthernetFrame \<or> length frame > MaxFrameSize
      then (c, Err (ErrFrameSize (length frame)))
      else (case encode c MsgFrame frame of (c', msg) \<Rightarrow> (c', Ret msg)))"

text \<open>
  \<^verbatim>\<open>rand.Read\<close> fills the challenge or fails; its result is an argument. A result of any
  length is cut or zero-filled to the sixteen bytes the sub_slice holds.
\<close>

definition fill :: "nat \<Rightarrow> bytes \<Rightarrow> bytes" where
  "fill n r = take n (r @ replicate n 0)"

definition EncodeHello ::
    "bytes option \<Rightarrow> Codec \<Rightarrow> Codec \<times> (proto_error, bytes \<times> bytes) outcome" where
  "EncodeHello rnd c =
     (case rnd of
        None \<Rightarrow> (c, Err ErrChallengeGen)
      | Some r \<Rightarrow>
          let challenge = fill ChallengeSize r;
              payload = PutUint16 ProtocolVersion @ challenge
          in case encode c MsgHello payload of (c', msg) \<Rightarrow> (c', Ret (msg, challenge)))"

definition EncodeHelloAck :: "Codec \<Rightarrow> bytes \<Rightarrow> Codec \<times> bytes" where
  "EncodeHelloAck c challenge =
     (let response = (if secureMode c \<and> length challenge = ChallengeSize
                      then computeHMAC c challenge else replicate ChallengeRespLen 0);
          payload = PutUint16 ProtocolVersion @ response
      in encode c MsgHelloAck payload)"

definition EncodePing :: "Codec \<Rightarrow> int64 \<Rightarrow> Codec \<times> bytes" where
  "EncodePing c timestamp = encode c MsgPing (PutUint64 timestamp)"

definition EncodePong :: "Codec \<Rightarrow> int64 \<Rightarrow> Codec \<times> bytes" where
  "EncodePong c timestamp = encode c MsgPong (PutUint64 timestamp)"

definition EncodeBye :: "Codec \<Rightarrow> Codec \<times> bytes" where
  "EncodeBye c = encode c MsgBye []"

lemma EncodeHello_Some:
  "EncodeHello (Some r) c =
     (fst (encode c MsgHello (PutUint16 ProtocolVersion @ fill ChallengeSize r)),
      Ret (snd (encode c MsgHello (PutUint16 ProtocolVersion @ fill ChallengeSize r)),
           fill ChallengeSize r))"
  by (simp add: EncodeHello_def Let_def case_prod_beta)

section \<open>The structured decoder\<close>

record Message =
  msgType :: byte
  Frame :: bytes
  Version :: uint16
  Challenge :: bytes
  Response :: bytes
  Timestamp :: int64

definition new_Message :: "byte \<Rightarrow> Message" where
  "new_Message t =
     \<lparr>msgType = t, Frame = [], Version = 0, Challenge = [], Response = [], Timestamp = 0\<rparr>"

text \<open>The \<^verbatim>\<open>switch\<close> of \<^verbatim>\<open>Decode\<close>, on a message type and its payload.\<close>

definition parsePayload :: "byte \<Rightarrow> bytes \<Rightarrow> (proto_error, Message) outcome" where
  "parsePayload t payload =
     (let msg = new_Message t in
      if t = MsgFrame then
        (if length payload < MinEthernetFrame
         then Err (ErrInvalidPayload (FrameTooSmall (length payload)))
         else if length payload > MaxFrameSize
         then Err (ErrInvalidPayload (FrameTooLarge (length payload)))
         else Ret (msg\<lparr>Frame := payload\<rparr>))
      else if t = MsgHello then
        (if length payload < HelloPayloadSize then Err (ErrInvalidPayload (PayloadTooSmall t))
         else case (go_slice 0 2 payload, go_slice 2 (2 + int ChallengeSize) payload) of
             (Some v, Some ch) \<Rightarrow>
               if Uint16 v \<noteq> ProtocolVersion then Err (ErrVersionMismatch (Uint16 v))
               else Ret (msg\<lparr>Version := Uint16 v, Challenge := ch\<rparr>)
           | _ \<Rightarrow> Panic)
      else if t = MsgHelloAck then
        (if length payload < HelloAckPayloadSize then Err (ErrInvalidPayload (PayloadTooSmall t))
         else case (go_slice 0 2 payload, go_slice 2 (2 + int ChallengeRespLen) payload) of
             (Some v, Some resp) \<Rightarrow>
               if Uint16 v \<noteq> ProtocolVersion then Err (ErrVersionMismatch (Uint16 v))
               else Ret (msg\<lparr>Version := Uint16 v, Response := resp\<rparr>)
           | _ \<Rightarrow> Panic)
      else if t = MsgPing \<or> t = MsgPong then
        (if length payload < PingPongPayloadSize then Err (ErrInvalidPayload (PayloadTooSmall t))
         else Ret (msg\<lparr>Timestamp := Uint64 payload\<rparr>))
      else if t = MsgBye then Ret msg
      else Err (ErrUnknownMsgType t))"

definition Decode :: "Codec \<Rightarrow> bytes \<Rightarrow> Codec \<times> (proto_error, Message) outcome" where
  "Decode c data =
     (case decode c data of
        (c', Ret (t, payload)) \<Rightarrow> (c', parsePayload t payload)
      | (c', Err e) \<Rightarrow> (c', Err e)
      | (c', Panic) \<Rightarrow> (c', Panic))"

definition VerifyChallengeResponse :: "Codec \<Rightarrow> bytes \<Rightarrow> bytes \<Rightarrow> bool" where
  "VerifyChallengeResponse c challenge response =
     (if \<not> secureMode c then True
      else if length challenge \<noteq> ChallengeSize \<or> length response \<noteq> ChallengeRespLen then False
      else hmac_Equal (computeHMAC c challenge) response)"

definition ResetRecvNonce :: "Codec \<Rightarrow> Codec" where
  "ResetRecvNonce c = c\<lparr>recvNonce := 0\<rparr>"

definition MessageTypeName :: "byte \<Rightarrow> string" where
  "MessageTypeName t =
     (if t = MsgFrame then ''FRAME''
      else if t = MsgHello then ''HELLO''
      else if t = MsgHelloAck then ''HELLO_ACK''
      else if t = MsgPing then ''PING''
      else if t = MsgPong then ''PONG''
      else if t = MsgBye then ''BYE''
      else ''UNKNOWN(0x'' @ fmt_02x t @ '')'')"

section \<open>Normal forms of the two stages\<close>

lemma length_computeHMAC [simp, wire_simps]: "length (computeHMAC c d) = 32"
  by (simp add: computeHMAC_def)

lemma computeHMAC_cong: "psk c = psk d \<Longrightarrow> computeHMAC c = computeHMAC d"
  by (simp add: computeHMAC_def fun_eq_iff)

definition is_handshake :: "byte \<Rightarrow> bool" where
  "is_handshake t \<longleftrightarrow> t = MsgHello \<or> t = MsgHelloAck"

text \<open>The datagram a keyed codec builds for a type, a nonce and a payload.\<close>

definition sealed :: "bytes \<Rightarrow> byte \<Rightarrow> uint64 \<Rightarrow> bytes \<Rightarrow> bytes" where
  "sealed k t n p = (t # PutUint64 n @ p) @ hmac_sha256 k (t # PutUint64 n @ p)"

lemma length_sealed [wire_simps]: "length (sealed k t n p) = 41 + length p"
  by (simp add: sealed_def)

lemma encode_secure:
  "secureMode c \<Longrightarrow>
   encode c t p = (c\<lparr>sendNonce := sendNonce c + 1\<rparr>, sealed (psk c) t (sendNonce c + 1) p)"
  by (simp add: encode_def nextNonce_def Let_def computeHMAC_def sealed_def)

lemma encode_insecure: "\<not> secureMode c \<Longrightarrow> encode c t p = (c, t # p)"
  by (simp add: encode_def)

lemma decode_insecure: "\<not> secureMode c \<Longrightarrow> decode c (t # p) = (c, Ret (t, p))"
  by (simp add: decode_def go_index_def go_slice_def)

lemma decode_short: "secureMode c \<Longrightarrow> length data < 41 \<Longrightarrow> decode c data = (c, Err ErrMessageTooShort)"
  by (simp add: decode_def)

lemma decode_long:
  assumes "secureMode c" and "41 \<le> length data"
  shows "decode c data =
     (let e = length data - 32; n = Uint64 (sub_slice 1 9 data) in
      if drop e data \<noteq> computeHMAC c (take e data) then (c, Err ErrInvalidHMAC)
      else if is_handshake (data ! 0) then (c, Ret (data ! 0, sub_slice 9 e data))
      else if n > 0 \<and> n \<le> recvNonce c then (c, Err ErrReplayDetected)
      else (c\<lparr>recvNonce := n\<rparr>, Ret (data ! 0, sub_slice 9 e data)))"
proof -
  let ?e = "length data - 32"
  have "int (length data) - 32 = int ?e" using assms(2) by simp
  moreover have "go_index data 0 = Some (data ! 0)"
    using go_index_in [of 0 data] assms(2) by force
  moreover have "go_slice 1 9 data = Some (sub_slice 1 9 data)"
    using go_slice_in [of 1 9 data] assms(2) by simp
  moreover have "go_slice 9 (int ?e) data = Some (sub_slice 9 ?e data)"
    using go_slice_in [of 9 ?e data] assms(2) by simp
  moreover have "go_slice (int ?e) (int (length data)) data = Some (drop ?e data)"
    using go_slice_in [of ?e "length data" data] by (simp add: sub_slice_def)
  moreover have "go_slice 0 (int ?e) data = Some (take ?e data)"
    using go_slice_in [of 0 ?e data] by (simp add: sub_slice_def)
  ultimately show ?thesis using assms
    by (auto simp: decode_def verifyHMAC_def Let_def is_handshake_def not_less)
qed

lemma sealed_parts [wire_simps]:
  "take (9 + length p) (sealed k t n p) = t # PutUint64 n @ p"
  "drop (9 + length p) (sealed k t n p) = hmac_sha256 k (t # PutUint64 n @ p)"
  "sealed k t n p ! 0 = t"
  "sub_slice (Suc 0) 9 (sealed k t n p) = PutUint64 n"
  "sub_slice 9 (9 + length p) (sealed k t n p) = p"
  using hmac.tag_split [of "t # PutUint64 n @ p" k] by (simp_all add: sealed_def sub_slice_def)

lemma decode_sealed:
  "secureMode c \<Longrightarrow>
   decode c (sealed k t n p) =
     (if hmac_sha256 k (t # PutUint64 n @ p) \<noteq> hmac_sha256 (psk c) (t # PutUint64 n @ p)
      then (c, Err ErrInvalidHMAC)
      else if is_handshake t then (c, Ret (t, p))
      else if n > 0 \<and> n \<le> recvNonce c then (c, Err ErrReplayDetected)
      else (c\<lparr>recvNonce := n\<rparr>, Ret (t, p)))"
  by (simp add: decode_long wire_simps computeHMAC_def Let_def)

lemma sealedI:
  assumes "41 \<le> length m" and "drop (length m - 32) m = hmac_sha256 k (take (length m - 32) m)"
  shows "m = sealed k (m ! 0) (Uint64 (sub_slice 1 9 m)) (sub_slice 9 (length m - 32) m)"
proof -
  let ?b = "take (length m - 32) m"
  have head: "?b = m ! 0 # PutUint64 (Uint64 (sub_slice 1 9 m)) @ sub_slice 9 (length m - 32) m"
  proof (rule nth_equalityI)
    have "8 \<le> length (sub_slice 1 9 m)" using assms(1) by simp
    then have put: "PutUint64 (Uint64 (sub_slice 1 9 m)) = sub_slice 1 9 m"
      by (simp add: PutUint64_Uint64)
    show "length ?b = length (m ! 0 # PutUint64 (Uint64 (sub_slice 1 9 m)) @ sub_slice 9 (length m - 32) m)"
      using assms(1) by simp
    show "?b ! i = (m ! 0 # PutUint64 (Uint64 (sub_slice 1 9 m)) @ sub_slice 9 (length m - 32) m) ! i"
      if "i < length ?b" for i
      using that assms(1) unfolding put
      by (cases i) (auto simp: nth_append sub_slice_def)
  qed
  have "m = ?b @ hmac_sha256 k ?b"
    using assms(2) append_take_drop_id [of "length m - 32" m] by metis
  then show ?thesis unfolding sealed_def head [symmetric] .
qed

section \<open>Frame facts: what each operation leaves alone\<close>

lemma decode_cases:
  "fst (decode c m) = c \<or>
   secureMode c \<and> 41 \<le> length m \<and> \<not> is_handshake (m ! 0) \<and>
   (Uint64 (sub_slice 1 9 m) = 0 \<or> recvNonce c < Uint64 (sub_slice 1 9 m)) \<and>
   fst (decode c m) = c\<lparr>recvNonce := Uint64 (sub_slice 1 9 m)\<rparr>"
proof (cases "secureMode c")
  case True
  show ?thesis
  proof (cases "length m < 41")
    case True
    with \<open>secureMode c\<close> show ?thesis by (simp add: decode_short)
  next
    case False
    with True show ?thesis by (auto simp: decode_long Let_def not_le word_gt_0)
  qed
next
  case False
  then show ?thesis by (auto simp: decode_def split: option.splits)
qed

lemma decode_keeps [simp]:
  "psk (fst (decode c m)) = psk c" "secureMode (fst (decode c m)) = secureMode c"
  "sendNonce (fst (decode c m)) = sendNonce c"
  using decode_cases [of c m] by auto

lemma fst_Decode [simp]: "fst (Decode c m) = fst (decode c m)"
  by (simp add: Decode_def split: prod.splits outcome.splits)

lemma encode_keeps [simp]:
  "psk (fst (encode c t p)) = psk c" "secureMode (fst (encode c t p)) = secureMode c"
  "recvNonce (fst (encode c t p)) = recvNonce c"
  by (cases "secureMode c"; simp add: encode_secure encode_insecure)+

lemma ResetRecvNonce_keeps [simp]:
  "psk (ResetRecvNonce c) = psk c" "secureMode (ResetRecvNonce c) = secureMode c"
  "sendNonce (ResetRecvNonce c) = sendNonce c" "recvNonce (ResetRecvNonce c) = 0"
  by (simp_all add: ResetRecvNonce_def)

section \<open>Round trips\<close>

text \<open>
  Two codecs are paired when they run in the same mode with the same key; the window of
  the receiver \<open>d\<close> is open for the next message of \<open>c\<close> when that message's nonce is
  above the last one accepted (or has wrapped to zero).
\<close>

definition paired :: "Codec \<Rightarrow> Codec \<Rightarrow> bool" where
  "paired c d \<longleftrightarrow> psk c = psk d \<and> secureMode c = secureMode d"

definition window_open :: "Codec \<Rightarrow> Codec \<Rightarrow> bool" where
  "window_open c d \<longleftrightarrow> (secureMode d \<longrightarrow> sendNonce c + 1 = 0 \<or> recvNonce d < sendNonce c + 1)"

definition after_accept :: "Codec \<Rightarrow> byte \<Rightarrow> Codec \<Rightarrow> Codec" where
  "after_accept c t d =
     (if secureMode d \<and> \<not> is_handshake t then d\<lparr>recvNonce := sendNonce c + 1\<rparr> else d)"

lemma decode_encode:
  assumes "paired c d" and "is_handshake t \<or> window_open c d"
  shows "decode d (snd (encode c t p)) = (after_accept c t d, Ret (t, p))"
proof (cases "secureMode d")
  case True
  then have "secureMode c" and "psk c = psk d" using assms(1) by (auto simp: paired_def)
  with True assms(2) show ?thesis
    by (auto simp: encode_secure decode_sealed after_accept_def window_open_def not_le)
next
  case False
  with assms(1) show ?thesis
    by (simp add: paired_def encode_insecure decode_insecure after_accept_def)
qed

lemma Decode_encode:
  assumes "paired c d" and "is_handshake t \<or> window_open c d"
  shows "Decode d (snd (encode c t p)) = (after_accept c t d, parsePayload t p)"
  by (simp add: Decode_def decode_encode [OF assms])

lemma parsePayload_frame:
  "14 \<le> length f \<Longrightarrow> length f \<le> 1514 \<Longrightarrow>
   parsePayload MsgFrame f = Ret ((new_Message MsgFrame)\<lparr>Frame := f\<rparr>)"
  by (simp add: parsePayload_def)

lemma length_fill [simp]: "length (fill n r) = n"
  by (simp add: fill_def)

lemma parsePayload_hello:
  "length ch = 16 \<Longrightarrow> parsePayload MsgHello (PutUint16 v @ ch @ r) =
     (if v \<noteq> 1 then Err (ErrVersionMismatch v)
      else Ret ((new_Message MsgHello)\<lparr>Version := v, Challenge := ch\<rparr>))"
  by (simp add: parsePayload_def go_slice_def)

lemma parsePayload_ack:
  "length re = 32 \<Longrightarrow> parsePayload MsgHelloAck (PutUint16 v @ re @ r) =
     (if v \<noteq> 1 then Err (ErrVersionMismatch v)
      else Ret ((new_Message MsgHelloAck)\<lparr>Version := v, Response := re\<rparr>))"
  by (simp add: parsePayload_def go_slice_def)

lemma parsePayload_ping:
  "parsePayload MsgPing (PutUint64 ts) = Ret ((new_Message MsgPing)\<lparr>Timestamp := ts\<rparr>)"
  "parsePayload MsgPong (PutUint64 ts) = Ret ((new_Message MsgPong)\<lparr>Timestamp := ts\<rparr>)"
  "parsePayload MsgBye p = Ret (new_Message MsgBye)"
  by (simp_all add: parsePayload_def)

lemma decode_acceptedE:
  assumes "secureMode c" and "decode c m = (c', Ret (t, p))"
  obtains n where "m = sealed (psk c) t n p"
    and "is_handshake t \<Longrightarrow> c' = c"
    and "\<not> is_handshake t \<Longrightarrow> (n = 0 \<or> recvNonce c < n) \<and> c' = c\<lparr>recvNonce := n\<rparr>"
proof -
  have long: "41 \<le> length m" using assms decode_short [of c m] by (cases "length m < 41") auto
  have tag: "drop (length m - 32) m = hmac_sha256 (psk c) (take (length m - 32) m)"
    using assms(2)
    by (simp add: decode_long [OF assms(1) long] computeHMAC_def Let_def split: if_splits)
  obtain n t' p' where m: "m = sealed (psk c) t' n p'" using sealedI [OF long tag] by blast
  have "t' = t \<and> p' = p \<and> (if is_handshake t then c' = c
      else (n = 0 \<or> recvNonce c < n) \<and> c' = c\<lparr>recvNonce := n\<rparr>)"
    using assms(2) unfolding m
    by (auto simp: decode_sealed [OF assms(1)] not_le word_gt_0 split: if_splits)
  with m that show thesis by (auto split: if_splits)
qed

section \<open>Properties\<close>

text \<open>
  C3. A codec with a key accepts a datagram exactly when it is a type byte, an 8-byte nonce
  and a payload followed by the HMAC of those bytes under its own key, and, for every type
  other than HELLO and HELLO_ACK, the nonce is zero or above the last one accepted. The type
  and payload returned are the ones in the datagram, and the window moves to its nonce
  (handshake messages leave the window alone).
\<close>

theorem decode_accepts_iff:
  assumes "secureMode c"
  shows "decode c m = (c', Ret (t, p)) \<longleftrightarrow>
    (\<exists>n. m = sealed (psk c) t n p \<and>
         (if is_handshake t then c' = c
          else (n = 0 \<or> recvNonce c < n) \<and> c' = c\<lparr>recvNonce := n\<rparr>))"
    (is "?lhs \<longleftrightarrow> ?rhs")
proof
  assume ?lhs
  with assms show ?rhs by (rule decode_acceptedE) auto
next
  assume ?rhs
  then show ?lhs by (auto simp: decode_sealed [OF assms] not_le word_gt_0 split: if_splits)
qed

theorem decode_accepts_iff_witness:
  "secureMode (NewCodec [0x6b]) \<and>
   decode (NewCodec [0x6b]) (sealed [0x6b] MsgPing 1 [7]) =
     ((NewCodec [0x6b])\<lparr>recvNonce := 1\<rparr>, Ret (MsgPing, [7]))"
proof -
  have h: "secureMode (NewCodec [0x6b])" by (simp add: NewCodec_def)
  show ?thesis
    using h by (subst decode_accepts_iff [OF h]) (auto simp: NewCodec_def is_handshake_def intro!: exI [of _ 1])
qed

lemma parsePayload_not_panic: "parsePayload t p \<noteq> Panic"
  by (simp add: parsePayload_def Let_def go_slice_def)

lemma decode_not_panic: "snd (decode c data) \<noteq> Panic"
proof (cases "secureMode c \<and> 41 \<le> length data")
  case True
  then show ?thesis by (simp add: decode_long Let_def)
next
  case False
  show ?thesis
  proof (cases data)
    case Nil
    then show ?thesis by (simp add: decode_def)
  next
    case (Cons b r)
    with False show ?thesis
      by (cases "secureMode c") (simp_all add: decode_short decode_insecure)
  qed
qed

lemma Decode_not_panic: "snd (Decode c data) \<noteq> Panic"
  using decode_not_panic [of c data]
  by (auto simp: Decode_def parsePayload_not_panic split: prod.splits outcome.splits)


text \<open>
  A frame of a legal Ethernet size survives the wire unchanged: encoded by one codec and
  decoded by a paired one whose window is open, in either mode, it comes back as a FRAME
  message with the same bytes.
\<close>

lemma frame_roundtrip:
  assumes "paired c d" and "window_open c d" and "14 \<le> length f" and "length f \<le> 1514"
  shows "\<exists>c' msg. EncodeFrame c f = (c', Ret msg) \<and>
     Decode d msg = (after_accept c MsgFrame d, Ret ((new_Message MsgFrame)\<lparr>Frame := f\<rparr>))"
proof -
  have "EncodeFrame c f = (fst (encode c MsgFrame f), Ret (snd (encode c MsgFrame f)))"
    using assms(3,4) by (simp add: EncodeFrame_def split: prod.splits)
  moreover have "Decode d (snd (encode c MsgFrame f)) =
      (after_accept c MsgFrame d, parsePayload MsgFrame f)"
    using assms(1,2) by (intro Decode_encode) auto
  ultimately show ?thesis using assms(3,4) by (simp add: parsePayload_frame del: MsgFrame_def)
qed

lemma NewCodec_paired: "paired (NewCodec k) (NewCodec k)" "window_open (NewCodec k) (NewCodec k)"
  by (simp_all add: paired_def window_open_def NewCodec_def)

text \<open>
  PING and PONG carry their timestamp across the wire bit for bit, negative values
  included, and BYE arrives as BYE, in either mode, between paired codecs with an open
  window.
\<close>

lemma control_roundtrip:
  assumes "paired c d" and "window_open c d"
  shows "Decode d (snd (EncodePing c ts)) =
           (after_accept c MsgPing d, Ret ((new_Message MsgPing)\<lparr>Timestamp := ts\<rparr>)) \<and>
         Decode d (snd (EncodePong c ts)) =
           (after_accept c MsgPong d, Ret ((new_Message MsgPong)\<lparr>Timestamp := ts\<rparr>)) \<and>
         Decode d (snd (EncodeBye c)) = (after_accept c MsgBye d, Ret (new_Message MsgBye))"
  unfolding EncodePing_def EncodePong_def EncodeBye_def
  by (simp only: Decode_encode [OF assms(1) disjI2 [OF assms(2)]] parsePayload_ping)

text \<open>
  The challenge exchange completes between paired codecs whatever their nonce counters
  are: the HELLO of \<open>c\<close> decodes at \<open>d\<close> to its sixteen-byte challenge, the HELLO_ACK that
  \<open>d\<close> builds from it decodes at \<open>c\<close>, and \<open>c\<close> accepts the response it carries. Neither
  message moves a replay window.
\<close>

lemma handshake_exchange:
  assumes "paired c d" and "EncodeHello (Some r) c = (c', Ret (hello, ch))"
    and "EncodeHelloAck d ch = (d', ack)"
  shows "Decode d hello = (d, Ret ((new_Message MsgHello)\<lparr>Version := 1, Challenge := ch\<rparr>)) \<and>
    (\<exists>re. Decode c' ack = (c', Ret ((new_Message MsgHelloAck)\<lparr>Version := 1, Response := re\<rparr>)) \<and>
          VerifyChallengeResponse c' ch re)"
proof -
  let ?hp = "PutUint16 1 @ fill 16 r"
  let ?re = "if secureMode d then computeHMAC d ch else replicate 32 0"
  have ch: "ch = fill 16 r" and hello: "hello = snd (encode c MsgHello ?hp)"
    and c': "c' = fst (encode c MsgHello ?hp)"
    using assms(2) by (auto simp: EncodeHello_Some)
  have "length ch = 16" by (simp add: ch)
  then have ack: "ack = snd (encode d MsgHelloAck (PutUint16 1 @ ?re @ []))"
    using assms(3) by (auto simp: EncodeHelloAck_def Let_def split: if_splits)
  have hs: "is_handshake MsgHello" "is_handshake MsgHelloAck" by (simp_all add: is_handshake_def)
  have keep: "after_accept x t y = y" if "is_handshake t" for x y t
    using that by (simp add: after_accept_def)
  have h: "Decode d hello = (d, Ret ((new_Message MsgHello)\<lparr>Version := 1, Challenge := ch\<rparr>))"
    unfolding hello ch
    using parsePayload_hello [of "fill 16 r" 1 "[]"] hs assms(1)
    by (simp add: Decode_encode keep del: MsgHello_def)
  have dc: "paired d c'" using assms(1) by (simp add: paired_def c')
  have "Decode c' ack = (c', parsePayload MsgHelloAck (PutUint16 1 @ ?re @ []))"
    unfolding ack using hs dc by (simp only: Decode_encode keep disjI1)
  also have "\<dots> = (c', Ret ((new_Message MsgHelloAck)\<lparr>Version := 1, Response := ?re\<rparr>))"
    by (simp add: parsePayload_ack del: MsgHelloAck_def append_Nil2)
  finally have dec: "Decode c' ack = (c', Ret ((new_Message MsgHelloAck)\<lparr>Version := 1, Response := ?re\<rparr>))" .
  have "VerifyChallengeResponse c' ch ?re"
    using dc \<open>length ch = 16\<close>
    by (auto simp: VerifyChallengeResponse_def paired_def computeHMAC_cong [of d c'])
  with h dec show ?thesis by blast
qed

section \<open>The replay window over whole runs\<close>

definition nonce_of :: "bytes \<Rightarrow> uint64" where
  "nonce_of m = Uint64 (sub_slice 1 9 m)"

definition decode_run :: "Codec \<Rightarrow> bytes list \<Rightarrow> Codec" where
  "decode_run c ms = fold (\<lambda>m c. fst (decode c m)) ms c"

fun decode_all :: "Codec \<Rightarrow> bytes list \<Rightarrow> Codec \<times> (proto_error, byte \<times> bytes) outcome list" where
  "decode_all c [] = (c, [])"
| "decode_all c (m # ms) =
     (case decode c m of (c', r) \<Rightarrow> case decode_all c' ms of (c'', rs) \<Rightarrow> (c'', r # rs))"

definition decode_step :: "Codec \<Rightarrow> Codec \<Rightarrow> bool" where
  "decode_step c c' \<longleftrightarrow> (\<exists>m. nonce_of m \<noteq> 0 \<and> c' = fst (decode c m))"

lemma nonce_of_sealed [simp]: "nonce_of (sealed k t n p) = n"
  by (simp add: nonce_of_def wire_simps)

interpretation window: transition_invariant
  "\<lambda>c. n \<le> recvNonce c" decode_step "\<lambda>c. n \<le> recvNonce c" for n :: uint64
proof unfold_locales
  fix s t
  assume "n \<le> recvNonce s" and "decode_step s t"
  then show "n \<le> recvNonce t"
    using decode_cases [of s] by (force simp: decode_step_def nonce_of_def)
qed

lemma decode_run_steps:
  "list_all (\<lambda>m. nonce_of m \<noteq> 0) ms \<Longrightarrow> decode_step\<^sup>*\<^sup>* c (decode_run c ms)"
proof (induction ms arbitrary: c)
  case Nil
  then show ?case by (simp add: decode_run_def)
next
  case (Cons m ms)
  then have "decode_step c (fst (decode c m))" by (auto simp: decode_step_def)
  with Cons show ?case by (auto simp: decode_run_def intro: converse_rtranclp_into_rtranclp)
qed

lemma decode_run_keeps [simp]:
  "psk (decode_run c ms) = psk c" "secureMode (decode_run c ms) = secureMode c"
  "sendNonce (decode_run c ms) = sendNonce c"
  unfolding decode_run_def by (induction ms arbitrary: c) simp_all



text \<open>
  The exception of nonce zero: a correctly tagged non-handshake datagram with nonce zero
  is accepted in every state of a keyed codec and puts the window back to zero, after which
  any datagram accepted earlier with a non-zero nonce is accepted again.
\<close>

lemma nonce_zero_reopens_window:
  assumes "secureMode c" and "\<not> is_handshake t" and "\<not> is_handshake t'" and "n \<noteq> 0"
  shows "decode c (sealed (psk c) t 0 p) = (c\<lparr>recvNonce := 0\<rparr>, Ret (t, p)) \<and>
         decode (c\<lparr>recvNonce := 0\<rparr>) (sealed (psk c) t' n p') =
           (c\<lparr>recvNonce := n\<rparr>, Ret (t', p'))"
  using assms by (simp add: decode_sealed)

section \<open>Streams over a lossy, ordered network\<close>

fun encode_all :: "Codec \<Rightarrow> (byte \<times> bytes) list \<Rightarrow> Codec \<times> bytes list" where
  "encode_all c [] = (c, [])"
| "encode_all c ((t, p) # ms) =
     (case encode c t p of (c', m) \<Rightarrow> case encode_all c' ms of (c'', ds) \<Rightarrow> (c'', m # ds))"

text \<open>The elements of a list that a delivery mask lets through, in order.\<close>

fun delivered :: "bool list \<Rightarrow> 'a list \<Rightarrow> 'a list" where
  "delivered (True # bs) (x # xs) = x # delivered bs xs"
| "delivered (False # bs) (x # xs) = delivered bs xs"
| "delivered _ _ = []"

lemma nonce_step:
  fixes m n :: uint64
  assumes "unat n + 1 < 2 ^ 64" and "m \<le> n"
  shows "m < n + 1" and "unat (n + 1) = unat n + 1" and "n \<le> n + 1"
proof -
  show "unat (n + 1) = unat n + 1" using assms(1) by (simp add: unat_word_ariths)
  with assms(2) show "m < n + 1" and "n \<le> n + 1"
    by (simp_all add: word_less_nat_alt word_le_nat_alt)
qed

lemma nonces_of_encode_all:
  "secureMode c \<Longrightarrow>
   map nonce_of (snd (encode_all c ms)) = map (\<lambda>i. sendNonce c + word_of_nat (Suc i)) [0..<length ms]"
proof (induction ms arbitrary: c)
  case Nil
  then show ?case by simp
next
  case (Cons x ms)
  obtain t p where x: "x = (t, p)" by fastforce
  let ?c = "c\<lparr>sendNonce := sendNonce c + 1\<rparr>"
  have "map nonce_of (snd (encode_all ?c ms)) =
      map (\<lambda>i. sendNonce c + word_of_nat (Suc (Suc i))) [0..<length ms]"
    using Cons by (simp add: ac_simps)
  then show ?case using Cons.prems
    by (simp add: x encode_secure upt_conv_Cons map_Suc_upt [symmetric] ac_simps o_def
        case_prod_beta del: upt_Suc)
qed

text \<open>
  The messages a keyed codec sends carry the successive values of its counter: the
  \<open>i\<close>-th of a run of fewer than \<open>2^64 - sendNonce\<close> messages has nonce \<open>sendNonce + i\<close>, so no
  nonce repeats and none is zero.
\<close>

lemma send_nonces_fresh:
  assumes "secureMode c" and "unat (sendNonce c) + length ms < 2 ^ 64"
  shows "map (unat \<circ> nonce_of) (snd (encode_all c ms)) =
           [Suc (unat (sendNonce c))..<Suc (unat (sendNonce c) + length ms)] \<and>
         distinct (map nonce_of (snd (encode_all c ms))) \<and>
         0 \<notin> nonce_of ` set (snd (encode_all c ms))"
proof -
  let ?ns = "map nonce_of (snd (encode_all c ms))"
  have "unat (sendNonce c + word_of_nat (Suc i)) = unat (sendNonce c) + Suc i"
    if "i < length ms" for i
    using that assms(2) by (simp add: unat_word_ariths unat_of_nat del: of_nat_Suc)
  then have u: "map unat ?ns = [Suc (unat (sendNonce c))..<Suc (unat (sendNonce c) + length ms)]"
    by (intro nth_equalityI) (auto simp: nonces_of_encode_all [OF assms(1)] simp del: upt_Suc)
  then have "distinct (map unat ?ns)" by (simp del: map_map upt_Suc)
  then have "distinct ?ns" by (simp only: distinct_map)
  moreover have "0 \<notin> set ?ns"
  proof
    assume "0 \<in> set ?ns"
    then have "0 \<in> set (map unat ?ns)" by (metis image_eqI list.set_map unsigned_0)
    then show False unfolding u by (simp del: upt_Suc)
  qed
  ultimately show ?thesis using u by (simp del: upt_Suc)
qed

text \<open>
  A receiver that is not ahead of the sender, with room for \<open>n\<close> more messages in the nonce
  space: the next message is accepted, and whether or not it arrives the same holds after it.
\<close>

definition link_ok :: "nat \<Rightarrow> Codec \<Rightarrow> Codec \<Rightarrow> bool" where
  "link_ok n c d \<longleftrightarrow> paired c d \<and>
     (secureMode c \<longrightarrow> recvNonce d \<le> sendNonce c \<and> unat (sendNonce c) + n < 2 ^ 64)"

lemma link_ok_step:
  assumes "link_ok (Suc n) c d"
  shows "window_open c d" and "link_ok n (fst (encode c t p)) d"
    and "link_ok n (fst (encode c t p)) (after_accept c t d)"
proof -
  have pair: "paired c d" using assms by (simp add: link_ok_def)
  have "window_open c d \<and> link_ok n (fst (encode c t p)) d \<and> link_ok n (fst (encode c t p)) (after_accept c t d)"
  proof (cases "secureMode c")
    case True
    then show ?thesis using assms nonce_step [of "sendNonce c" "recvNonce d"]
      by (auto simp: link_ok_def paired_def window_open_def after_accept_def encode_secure)
  next
    case False
    then show ?thesis using pair
      by (auto simp: link_ok_def paired_def window_open_def after_accept_def encode_insecure)
  qed
  then show "window_open c d" and "link_ok n (fst (encode c t p)) d"
    and "link_ok n (fst (encode c t p)) (after_accept c t d)" by auto
qed

lemma link_ok_weaken: "link_ok n c d \<Longrightarrow> m \<le> n \<Longrightarrow> link_ok m c d"
  by (auto simp: link_ok_def)

text \<open>
  C15. A stream survives loss: if a codec encodes a list of messages and the network drops any
  of them but keeps the order, a paired receiver whose window is not ahead of the sender
  accepts every datagram that arrives and returns exactly the type and payload that was sent,
  in order. The run is shorter than the nonce space; without a key there is no bound.
\<close>

theorem stream_delivery:
  assumes "link_ok (length ms) c d" and "length bs = length ms"
  shows "snd (decode_all d (delivered bs (snd (encode_all c ms)))) = map Ret (delivered bs ms)"
  using assms(2,1)
proof (induction bs ms arbitrary: c d rule: list_induct2)
  case Nil
  then show ?case by simp
next
  case (Cons b bs x ms)
  obtain t p where x: "x = (t, p)" by fastforce
  obtain c' m where enc: "encode c t p = (c', m)" by fastforce
  have link: "link_ok (Suc (length ms)) c d" using Cons.prems by simp
  have "decode d m = (after_accept c t d, Ret (t, p))"
    using decode_encode [of c d t p] link link_ok_step(1) [OF link] enc by (simp add: link_ok_def)
  moreover have "link_ok (length ms) c' d" "link_ok (length ms) c' (after_accept c t d)"
    using link_ok_step(2,3) [OF link, of t p] enc by auto
  ultimately show ?case using Cons.IH enc by (cases b) (simp_all add: x case_prod_beta)
qed

theorem stream_delivery_witness:
  "snd (decode_all (NewCodec [0x6b])
      (delivered [True, False, True]
        (snd (encode_all (NewCodec [0x6b]) [(MsgPing, [1]), (MsgPong, [2]), (MsgBye, [])])))) =
   [Ret (MsgPing, [1]), Ret (MsgBye, [])]"
  by (subst stream_delivery) (simp_all add: link_ok_def paired_def NewCodec_def)

section \<open>Peers in different modes\<close>

text \<open>
  A peer with a key and a peer without one never complete a handshake. A keyed codec
  reports the HELLO of a keyless one as too short, which is the case the transport singles
  out for its key-mismatch warning; a keyless codec reads the high bytes of the nonce as the
  version and rejects the HELLO of a keyed one as version zero, up to nonce \<open>2^48\<close>.
\<close>

lemma hello_mode_mismatch:
  assumes "EncodeHello (Some r) c = (c', Ret (hello, ch))"
  shows "(secureMode d \<and> \<not> secureMode c \<longrightarrow> Decode d hello = (d, Err ErrMessageTooShort)) \<and>
         (\<not> secureMode d \<and> secureMode c \<and> uint (sendNonce c + 1) < 2 ^ 48 \<longrightarrow>
            Decode d hello = (d, Err (ErrVersionMismatch 0)))"
proof (intro conjI impI)
  let ?hp = "PutUint16 1 @ fill 16 r"
  have hello: "hello = snd (encode c MsgHello ?hp)" using assms by (auto simp: EncodeHello_Some)
  {
    assume "secureMode d \<and> \<not> secureMode c"
    then show "Decode d hello = (d, Err ErrMessageTooShort)"
      by (simp add: hello encode_insecure Decode_def decode_short)
  next
    assume h: "\<not> secureMode d \<and> secureMode c \<and> uint (sendNonce c + 1) < 2 ^ 48"
    let ?n = "sendNonce c + 1"
    let ?q = "PutUint64 ?n @ ?hp @ hmac_sha256 (psk c) (MsgHello # PutUint64 ?n @ ?hp)"
    have "hello = MsgHello # ?q" using h by (simp add: hello encode_secure sealed_def)
    then have "Decode d hello = (d, parsePayload MsgHello ?q)"
      using h by (simp add: Decode_def decode_insecure)
    moreover have "uint ?n div 2 ^ 48 = 0"
      using h uint64_bounds(1) [of ?n] by (intro div_pos_pos_trivial) auto
    then have "Uint16 (take 2 (PutUint64 ?n)) = 0" by (simp add: Uint16_take_PutUint64)
    then have "parsePayload MsgHello ?q = Err (ErrVersionMismatch 0)"
      by (simp add: parsePayload_def go_slice_def)
    ultimately show "Decode d hello = (d, Err (ErrVersionMismatch 0))" by simp
  }
qed

end
