(* ===== verification/Transport.thy ===== *)
theory Transport
  imports Protocol
begin

text \<open>
  The UDP transport, \<^verbatim>\<open>src/internal/transport/transport.go\<close>: binding, the listener's and
  the connector's side of the handshake, sending, receiving and closing. The socket is a
  record with the datagrams written so far; what the network and the clock do is the script
  of the loops. The codec is shared with the bridge through a pointer, so every operation
  takes it and returns it. Log lines are not modelled.
\<close>

section \<open>Addresses\<close>

record UDPAddr =
  IP :: bytes
  Port :: int

definition v4InV6Prefix :: bytes where
  "v4InV6Prefix = replicate 10 0 @ [0xff, 0xff]"

text \<open>\<^verbatim>\<open>net.IP.Equal\<close>: an IPv4 address and its IPv6-mapped form are equal.\<close>

definition IP_Equal :: "bytes \<Rightarrow> bytes \<Rightarrow> bool" where
  "IP_Equal a b =
     (if length a = length b then a = b
      else if length a = 4 \<and> length b = 16 then take 12 b = v4InV6Prefix \<and> a = drop 12 b
      else if length a = 16 \<and> length b = 4 then take 12 a = v4InV6Prefix \<and> drop 12 a = b
      else False)"

definition addrEqual :: "UDPAddr option \<Rightarrow> UDPAddr option \<Rightarrow> bool" where
  "addrEqual a b =
     (case (a, b) of
        (Some x, Some y) \<Rightarrow> IP_Equal (IP x) (IP y) \<and> Port x = Port y
      | _ \<Rightarrow> a = None \<and> b = None)"

section \<open>The socket\<close>

record UDPConn =
  conn_closed :: bool
  conn_sent :: "(bytes \<times> UDPAddr) list"

definition new_UDPConn :: UDPConn where
  "new_UDPConn = \<lparr>conn_closed = False, conn_sent = []\<rparr>"

datatype read_result = ReadTimeoutErr | ReadError | ReadPacket bytes UDPAddr

text \<open>
  Reading from or writing to a nil or closed \<^verbatim>\<open>UDPConn\<close> returns an error; otherwise the
  environment decides.
\<close>

definition ReadFromUDP :: "UDPConn option \<Rightarrow> read_result \<Rightarrow> read_result" where
  "ReadFromUDP cn r =
     (case cn of None \<Rightarrow> ReadError | Some k \<Rightarrow> if conn_closed k then ReadError else r)"

definition WriteToUDP ::
    "bool \<Rightarrow> UDPConn option \<Rightarrow> bytes \<Rightarrow> UDPAddr option \<Rightarrow> UDPConn option \<times> bool" where
  "WriteToUDP ok cn data addr =
     (case (cn, addr) of
        (Some k, Some a) \<Rightarrow>
          if conn_closed k \<or> \<not> ok then (cn, False)
          else (Some (k\<lparr>conn_sent := conn_sent k @ [(data, a)]\<rparr>), True)
      | _ \<Rightarrow> (cn, False))"

section \<open>State\<close>

datatype Mode = Mode int

definition ModeListen :: Mode where "ModeListen = Mode 0"
definition ModeConnect :: Mode where "ModeConnect = Mode 1"

lemma Mode_neq [simp]: "ModeListen \<noteq> ModeConnect" "ModeConnect \<noteq> ModeListen"
  by (simp_all add: ModeListen_def ModeConnect_def)

text \<open>The backoff intervals, in nanoseconds as \<^verbatim>\<open>time.Duration\<close> counts them.\<close>

definition connectBackoff :: "int list" where
  "connectBackoff = [1 * 1000000000, 2 * 1000000000, 5 * 1000000000, 10 * 1000000000]"

datatype transport_error =
    ErrNotConnected
  | ErrChallengeInvalid
  | ErrClosed
  | CodecRequired
  | LoggerRequired
  | UnknownMode int
  | BindFailed
  | ResolveFailed
  | WrongMode
  | CtxErr
  | ReadFailed
  | HelloAckSendFailed
  | HelloEncodeFailed
  | HelloSendFailed
  | HandshakeTimedOut
  | WriteFailed
  | DecodePanic

record Transport =
  conn :: "UDPConn option"
  peerAddr :: "UDPAddr option"
  mode :: Mode
  challenge :: bytes
  connected :: bool
  closed :: bool

record Config =
  cfgMode :: Mode
  LocalPort :: uint16
  cfgPeerAddr :: string
  cfgCodec :: "Codec option"
  cfgLogger :: bool

text \<open>The operating system's answers to \<^verbatim>\<open>net.ListenUDP\<close> and \<^verbatim>\<open>net.ResolveUDPAddr\<close>.\<close>

record net_env =
  bind_ok :: "uint16 \<Rightarrow> bool"
  resolve :: "string \<Rightarrow> UDPAddr option"

definition setupListen :: "net_env \<Rightarrow> Transport \<Rightarrow> uint16 \<Rightarrow> transport_error + Transport" where
  "setupListen env t port =
     (if bind_ok env port then Inr (t\<lparr>conn := Some new_UDPConn\<rparr>) else Inl BindFailed)"

definition setupConnect ::
    "net_env \<Rightarrow> Transport \<Rightarrow> uint16 \<Rightarrow> string \<Rightarrow> transport_error + Transport" where
  "setupConnect env t localPort addr =
     (case resolve env addr of
        None \<Rightarrow> Inl ResolveFailed
      | Some a \<Rightarrow>
          if bind_ok env localPort
          then Inr (t\<lparr>peerAddr := Some a, conn := Some new_UDPConn\<rparr>) else Inl BindFailed)"

definition New :: "net_env \<Rightarrow> Config \<Rightarrow> transport_error + Transport" where
  "New env cfg =
     (if cfgCodec cfg = None then Inl CodecRequired
      else if \<not> cfgLogger cfg then Inl LoggerRequired
      else
        let t = \<lparr>conn = None, peerAddr = None, mode = cfgMode cfg, challenge = [],
                 connected = False, closed = False\<rparr>
        in if cfgMode cfg = ModeListen then setupListen env t (LocalPort cfg)
           else if cfgMode cfg = ModeConnect
           then setupConnect env t (LocalPort cfg) (cfgPeerAddr cfg)
           else Inl (case cfgMode cfg of Mode i \<Rightarrow> UnknownMode i))"

section \<open>The listener's side of the handshake\<close>

text \<open>
  One iteration of \<^verbatim>\<open>WaitForPeer\<close> sees whether the context is done, what the read returns
  and whether a write succeeds. The result \<^const>\<open>None\<close> of the loop is Go's nil error.
\<close>

record wait_obs =
  w_done :: bool
  w_read :: read_result
  w_write :: bool

type_synonym tc = "Transport \<times> Codec"

fun WaitForPeer_iter :: "wait_obs \<Rightarrow> tc \<Rightarrow> tc \<times> transport_error option iteration" where
  "WaitForPeer_iter ob (t, c) =
     (if w_done ob then ((t, c), Return (Some CtxErr))
      else case ReadFromUDP (conn t) (w_read ob) of
        ReadTimeoutErr \<Rightarrow> ((t, c), Continue)
      | ReadError \<Rightarrow> ((t, c), Return (Some ReadFailed))
      | ReadPacket data addr \<Rightarrow>
          (case Decode c data of
             (c1, Err e) \<Rightarrow> ((t, c1), Continue)
           | (c1, Panic) \<Rightarrow> ((t, c1), Return (Some DecodePanic))
           | (c1, Ret msg) \<Rightarrow>
               if msgType msg \<noteq> MsgHello then
                 (let (c2, bye) = EncodeBye c1;
                      (cn, ok) = WriteToUDP (w_write ob) (conn t) bye (Some addr)
                  in ((t\<lparr>conn := cn\<rparr>, c2), Continue))
               else
                 let t1 = t\<lparr>peerAddr := Some addr, challenge := Challenge msg\<rparr>;
                     c2 = ResetRecvNonce c1;
                     (c3, ack) = EncodeHelloAck c2 (Challenge msg);
                     (cn, ok) = WriteToUDP (w_write ob) (conn t1) ack (Some addr)
                 in if ok then ((t1\<lparr>conn := cn, connected := True\<rparr>, c3), Return None)
                    else ((t1\<lparr>conn := cn\<rparr>, c3), Return (Some HelloAckSendFailed))))"

definition WaitForPeer ::
    "wait_obs list \<Rightarrow> Transport \<Rightarrow> Codec \<Rightarrow> tc \<times> transport_error option option" where
  "WaitForPeer obs t c =
     (if mode t \<noteq> ModeListen then ((t, c), Some (Some WrongMode))
      else script_loop WaitForPeer_iter obs (t, c))"

section \<open>The connector's side of the handshake\<close>

record hs_obs =
  h_before :: bool
  h_done :: bool
  h_read :: read_result

fun attemptHandshake_iter :: "hs_obs \<Rightarrow> tc \<Rightarrow> tc \<times> transport_error option iteration" where
  "attemptHandshake_iter ob (t, c) =
     (if \<not> h_before ob then ((t, c), Return (Some HandshakeTimedOut))
      else if h_done ob then ((t, c), Return (Some CtxErr))
      else case ReadFromUDP (conn t) (h_read ob) of
        ReadTimeoutErr \<Rightarrow> ((t, c), Continue)
      | ReadError \<Rightarrow> ((t, c), Return (Some ReadFailed))
      | ReadPacket data addr \<Rightarrow>
          if \<not> addrEqual (Some addr) (peerAddr t) then ((t, c), Continue)
          else
            (case Decode c data of
               (c1, Err e) \<Rightarrow> ((t, c1), Continue)
             | (c1, Panic) \<Rightarrow> ((t, c1), Return (Some DecodePanic))
             | (c1, Ret msg) \<Rightarrow>
                 if msgType msg \<noteq> MsgHelloAck then ((t, c1), Continue)
                 else if IsSecure c1 \<and> \<not> VerifyChallengeResponse c1 (challenge t) (Response msg)
                 then ((t, c1), Return (Some ErrChallengeInvalid))
                 else ((t\<lparr>connected := True\<rparr>, ResetRecvNonce c1), Return None)))"

text \<open>
  One attempt: the random bytes, whether the HELLO is written, and the script of the wait.
\<close>

record attempt_env =
  a_rand :: "bytes option"
  a_write :: bool
  a_obs :: "hs_obs list"

definition attemptHandshake ::
    "attempt_env \<Rightarrow> Transport \<Rightarrow> Codec \<Rightarrow> tc \<times> transport_error option option" where
  "attemptHandshake env t c =
     (case EncodeHello (a_rand env) c of
        (c1, Ret (hello, ch)) \<Rightarrow>
          (let t1 = t\<lparr>challenge := ch\<rparr>;
               (cn, ok) = WriteToUDP (a_write env) (conn t1) hello (peerAddr t1);
               t2 = t1\<lparr>conn := cn\<rparr>
           in if \<not> ok then ((t2, c1), Some (Some HelloSendFailed))
              else script_loop attemptHandshake_iter (a_obs env) (t2, c1))
      | (c1, _) \<Rightarrow> ((t, c1), Some (Some HelloEncodeFailed)))"

text \<open>
  \<^verbatim>\<open>Connect\<close> sees, per attempt, whether the context is done before it, the attempt itself,
  and whether the context is done before the backoff timer fires. The delays it waits are
  collected in order.
\<close>

record connect_obs =
  k_done :: bool
  k_attempt :: attempt_env
  k_done_in_backoff :: bool

definition backoffDelay :: "nat \<Rightarrow> int" where
  "backoffDelay attempt =
     (let backoffIdx = (if attempt \<ge> length connectBackoff then length connectBackoff - 1 else attempt)
      in connectBackoff ! backoffIdx)"

fun Connect_iter ::
    "connect_obs \<Rightarrow> tc \<times> nat \<times> int list \<Rightarrow>
     (tc \<times> nat \<times> int list) \<times> transport_error option option iteration" where
  "Connect_iter ob ((t, c), attempt, delays) =
     (if k_done ob then (((t, c), attempt, delays), Return (Some (Some CtxErr)))
      else case attemptHandshake (k_attempt ob) t c of
        ((t1, c1), None) \<Rightarrow> (((t1, c1), attempt, delays), Return None)
      | ((t1, c1), Some None) \<Rightarrow> (((t1, c1), attempt, delays), Return (Some None))
      | ((t1, c1), Some (Some e)) \<Rightarrow>
          let delay = backoffDelay attempt in
          if k_done_in_backoff ob
          then (((t1, c1), attempt, delays @ [delay]), Return (Some (Some CtxErr)))
          else (((t1, ResetRecvNonce c1), attempt + 1, delays @ [delay]), Continue))"

definition Connect ::
    "connect_obs list \<Rightarrow> Transport \<Rightarrow> Codec \<Rightarrow> tc \<times> int list \<times> transport_error option option" where
  "Connect obs t c =
     (if mode t \<noteq> ModeConnect then ((t, c), [], Some (Some WrongMode))
      else case script_loop Connect_iter obs ((t, c), 0, []) of
        ((s, attempt, delays), r) \<Rightarrow> (s, delays, Option.bind r (\<lambda>x. x)))"

section \<open>Sending, receiving, closing\<close>

definition Send :: "bool \<Rightarrow> Transport \<Rightarrow> bytes \<Rightarrow> Transport \<times> transport_error option" where
  "Send ok t data =
     (if closed t then (t, Some ErrClosed)
      else if \<not> connected t then (t, Some ErrNotConnected)
      else let (cn, written) = WriteToUDP ok (conn t) data (peerAddr t)
           in (t\<lparr>conn := cn\<rparr>, if written then None else Some WriteFailed))"

datatype recv_result = RecvErrClosed | RecvTimeout | RecvFailed | Received bytes UDPAddr

definition Recv :: "read_result \<Rightarrow> Transport \<Rightarrow> recv_result" where
  "Recv r t =
     (if closed t then RecvErrClosed
      else case ReadFromUDP (conn t) r of
        ReadTimeoutErr \<Rightarrow> RecvTimeout
      | ReadError \<Rightarrow> RecvFailed
      | ReadPacket data addr \<Rightarrow> Received data addr)"

definition SendBye :: "bool \<Rightarrow> Transport \<Rightarrow> Codec \<Rightarrow> tc \<times> transport_error option" where
  "SendBye ok t c =
     (if \<not> connected t \<or> closed t then ((t, c), None)
      else let (c1, bye) = EncodeBye c;
               (cn, written) = WriteToUDP ok (conn t) bye (peerAddr t)
           in ((t\<lparr>conn := cn\<rparr>, c1), if written then None else Some WriteFailed))"

definition Close :: "Transport \<Rightarrow> Transport" where
  "Close t =
     (if closed t then t
      else t\<lparr>closed := True, connected := False,
             conn := map_option (\<lambda>k. k\<lparr>conn_closed := True\<rparr>) (conn t)\<rparr>)"

definition IsConnected :: "Transport \<Rightarrow> bool" where
  "IsConnected t = connected t"

definition PeerAddr :: "Transport \<Rightarrow> UDPAddr option" where
  "PeerAddr t = peerAddr t"

text \<open>
  The address the operating system bound a socket to is a parameter. A deadline can be set on an
  open socket only; what it does shows as the timeout results of later reads.
\<close>

definition LocalAddr :: "(UDPConn \<Rightarrow> UDPAddr) \<Rightarrow> Transport \<Rightarrow> UDPAddr option" where
  "LocalAddr bound t = map_option bound (conn t)"

definition SetReadDeadline :: "Transport \<Rightarrow> bool" where
  "SetReadDeadline t = (case conn t of None \<Rightarrow> False | Some k \<Rightarrow> \<not> conn_closed k)"

section \<open>Address comparison\<close>

text \<open>The sixteen-byte form that the comparison identifies addresses by.\<close>

definition canon :: "UDPAddr \<Rightarrow> bytes \<times> int" where
  "canon a = (if length (IP a) = 4 then v4InV6Prefix @ IP a else IP a, Port a)"

lemma length_v4prefix [simp]: "length v4InV6Prefix = 12"
  by (simp add: v4InV6Prefix_def)

text \<open>
  On IPv4 and IPv6 addresses \<^verbatim>\<open>addrEqual\<close> is equality of the port and of the address up
  to the IPv6-mapped form of an IPv4 address (so it is an equivalence relation), and a nil
  address equals only nil.
\<close>

lemma addrEqual_canon:
  assumes "\<forall>x \<in> set_option a \<union> set_option b. length (IP x) = 4 \<or> length (IP x) = 16"
  shows "addrEqual a b \<longleftrightarrow> map_option canon a = map_option canon b"
proof -
  have "IP_Equal p q \<longleftrightarrow>
      (if length p = 4 then v4InV6Prefix @ p else p) = (if length q = 4 then v4InV6Prefix @ q else q)"
    if "length p = 4 \<or> length p = 16" and "length q = 4 \<or> length q = 16" for p q
  proof -
    have "v4InV6Prefix @ p = q \<longleftrightarrow> take 12 q = v4InV6Prefix \<and> p = drop 12 q" if "length q = 16"
      using that by (metis append_eq_conv_conj length_v4prefix append_take_drop_id)
    moreover have "p = v4InV6Prefix @ q \<longleftrightarrow> take 12 p = v4InV6Prefix \<and> drop 12 p = q" if "length p = 16"
      using that by (metis append_eq_conv_conj length_v4prefix append_take_drop_id)
    ultimately show ?thesis using that by (auto simp: IP_Equal_def)
  qed
  then show ?thesis using assms
    by (cases a; cases b) (auto simp: addrEqual_def canon_def)
qed

lemma addrEqual_refl [simp]: "addrEqual a a"
  by (simp add: addrEqual_def IP_Equal_def split: option.splits)

section \<open>The state invariant\<close>

text \<open>
  A closed transport is not connected and its socket is closed; a connected one has a peer
  address and an open socket.
\<close>

definition transport_ok :: "Transport \<Rightarrow> bool" where
  "transport_ok t \<longleftrightarrow>
     (closed t \<longrightarrow> \<not> connected t \<and> (\<forall>k. conn t = Some k \<longrightarrow> conn_closed k)) \<and>
     (connected t \<longrightarrow> peerAddr t \<noteq> None \<and> (\<exists>k. conn t = Some k \<and> \<not> conn_closed k))"

lemma WriteToUDP_cases:
  "WriteToUDP ok cn data addr = (cn', w) \<Longrightarrow>
     (\<not> w \<and> cn' = cn) \<or>
     (w \<and> (\<exists>k a. cn = Some k \<and> addr = Some a \<and> \<not> conn_closed k \<and>
                cn' = Some (k\<lparr>conn_sent := conn_sent k @ [(data, a)]\<rparr>)))"
  by (auto simp: WriteToUDP_def split: option.splits if_splits)

lemma transport_ok_write:
  "transport_ok t \<Longrightarrow> WriteToUDP ok (conn t) data addr = (cn, w) \<Longrightarrow> transport_ok (t\<lparr>conn := cn\<rparr>)"
  by (auto simp: transport_ok_def dest!: WriteToUDP_cases)

lemma transport_ok_challenge [simp]: "transport_ok (t\<lparr>challenge := ch\<rparr>) = transport_ok t"
  by (simp add: transport_ok_def)

lemma transport_ok_peer: "transport_ok t \<Longrightarrow> transport_ok (t\<lparr>peerAddr := Some a\<rparr>)"
  by (simp add: transport_ok_def)

lemma transport_ok_connected:
  assumes "transport_ok t" and "conn t = Some k" and "\<not> conn_closed k" and "peerAddr t \<noteq> None"
  shows "transport_ok (t\<lparr>connected := True\<rparr>)"
  using assms by (auto simp: transport_ok_def)

lemma ReadFromUDP_packet:
  "ReadFromUDP cn r = ReadPacket data addr \<longleftrightarrow>
   r = ReadPacket data addr \<and> (\<exists>k. cn = Some k \<and> \<not> conn_closed k)"
  by (auto simp: ReadFromUDP_def split: option.splits)

lemma ReadFromUDP_timeout:
  "ReadFromUDP cn r = ReadTimeoutErr \<longleftrightarrow> r = ReadTimeoutErr \<and> (\<exists>k. cn = Some k \<and> \<not> conn_closed k)"
  by (auto simp: ReadFromUDP_def split: option.splits)

text \<open>The branches of one listener iteration, for a packet that decodes.\<close>

lemma WaitForPeer_iter_hello:
  assumes "\<not> w_done ob" and "ReadFromUDP (conn t) (w_read ob) = ReadPacket data addr"
    and "Decode c data = (c1, Ret msg)" and "msgType msg = MsgHello"
    and "EncodeHelloAck (ResetRecvNonce c1) (Challenge msg) = (c3, ack)"
    and "WriteToUDP (w_write ob) (conn t) ack (Some addr) = (cn, ok)"
  shows "WaitForPeer_iter ob (t, c) =
     ((t\<lparr>peerAddr := Some addr, challenge := Challenge msg, conn := cn, connected := ok \<or> connected t\<rparr>, c3),
      Return (if ok then None else Some HelloAckSendFailed))"
  using assms by simp

lemma WaitForPeer_iter_other:
  assumes "\<not> w_done ob" and "ReadFromUDP (conn t) (w_read ob) = ReadPacket data addr"
    and "Decode c data = (c1, Ret msg)" and "msgType msg \<noteq> MsgHello"
    and "EncodeBye c1 = (c2, bye)"
    and "WriteToUDP (w_write ob) (conn t) bye (Some addr) = (cn, ok)"
  shows "WaitForPeer_iter ob (t, c) = ((t\<lparr>conn := cn\<rparr>, c2), Continue)"
  using assms by simp

lemma WaitForPeer_iter_quiet:
  assumes "\<not> (\<exists>data addr msg. \<not> w_done ob \<and> ReadFromUDP (conn t) (w_read ob) = ReadPacket data addr \<and>
      snd (Decode c data) = Ret msg)"
  shows "fst (fst (WaitForPeer_iter ob (t, c))) = t \<and> snd (WaitForPeer_iter ob (t, c)) \<noteq> Return None"
  using assms by (auto split: read_result.split outcome.split prod.split)

declare WaitForPeer_iter.simps [simp del]

lemma transport_ok_ack:
  assumes "transport_ok t" and "WriteToUDP w (conn t) b (Some a) = (cn, ok)"
  shows "transport_ok (t\<lparr>peerAddr := Some a, challenge := ch, conn := cn, connected := ok \<or> connected t\<rparr>)"
  using assms by (auto simp: transport_ok_def dest!: WriteToUDP_cases)

lemma WaitForPeer_iter_ok:
  assumes "transport_ok t" and "WaitForPeer_iter ob (t, c) = ((t', c'), x)"
  shows "transport_ok t'"
proof (cases "\<exists>data addr msg. \<not> w_done ob \<and> ReadFromUDP (conn t) (w_read ob) = ReadPacket data addr \<and>
      snd (Decode c data) = Ret msg")
  case True
  then obtain data addr c1 msg where d: "\<not> w_done ob"
    and r: "ReadFromUDP (conn t) (w_read ob) = ReadPacket data addr"
    and m: "Decode c data = (c1, Ret msg)" by (metis surjective_pairing)
  show ?thesis
  proof (cases "msgType msg = MsgHello")
    case True
    obtain c3 ack where e: "EncodeHelloAck (ResetRecvNonce c1) (Challenge msg) = (c3, ack)" by fastforce
    obtain cn ok where w: "WriteToUDP (w_write ob) (conn t) ack (Some addr) = (cn, ok)" by fastforce
    show ?thesis
      using WaitForPeer_iter_hello [OF d r m True e w] transport_ok_ack [OF assms(1) w] assms(2) by auto
  next
    case False
    obtain c2 bye where e: "EncodeBye c1 = (c2, bye)" by fastforce
    obtain cn ok where w: "WriteToUDP (w_write ob) (conn t) bye (Some addr) = (cn, ok)" by fastforce
    show ?thesis
      using WaitForPeer_iter_other [OF d r m False e w] transport_ok_write [OF assms(1) w] assms(2) by auto
  qed
next
  case False
  with WaitForPeer_iter_quiet [OF False] assms show ?thesis by simp
qed

lemma attemptHandshake_iter_ok:
  assumes "transport_ok t" and "attemptHandshake_iter ob (t, c) = ((t', c'), x)"
  shows "transport_ok t'"
proof -
  have "t' = t \<or> (t' = t\<lparr>connected := True\<rparr> \<and> (\<exists>data addr. ReadFromUDP (conn t) (h_read ob) = ReadPacket data addr
      \<and> addrEqual (Some addr) (peerAddr t)))"
    using assms(2)
    by (auto split: read_result.splits outcome.splits prod.splits if_splits)
  then show ?thesis using assms(1)
    by (auto simp: ReadFromUDP_packet addrEqual_def transport_ok_def split: option.splits)
qed

interpretation wait_ok: loop_invariant WaitForPeer_iter "\<lambda>s. transport_ok (fst s)"
  by unfold_locales (auto intro: WaitForPeer_iter_ok)

interpretation handshake_ok: loop_invariant attemptHandshake_iter "\<lambda>s. transport_ok (fst s)"
  by unfold_locales (auto intro: attemptHandshake_iter_ok simp del: attemptHandshake_iter.simps)

declare attemptHandshake_iter.simps [simp del]

lemma attemptHandshake_eq:
  assumes "EncodeHello (a_rand env) c = (c1, Ret (hello, ch))"
    and "WriteToUDP (a_write env) (conn t) hello (peerAddr t) = (cn, ok)"
  shows "attemptHandshake env t c =
     (if ok then script_loop attemptHandshake_iter (a_obs env) (t\<lparr>challenge := ch, conn := cn\<rparr>, c1)
      else ((t\<lparr>challenge := ch, conn := cn\<rparr>, c1), Some (Some HelloSendFailed)))"
  using assms by (simp add: attemptHandshake_def)

lemma attemptHandshake_no_rand:
  "a_rand env = None \<Longrightarrow> attemptHandshake env t c = ((t, c), Some (Some HelloEncodeFailed))"
  by (simp add: attemptHandshake_def EncodeHello_def)

lemma attemptHandshake_ok:
  assumes "transport_ok t"
  shows "transport_ok (fst (fst (attemptHandshake env t c)))"
proof (cases "a_rand env")
  case None
  with assms show ?thesis by (simp add: attemptHandshake_no_rand)
next
  case (Some r)
  obtain c1 hello ch where e: "EncodeHello (a_rand env) c = (c1, Ret (hello, ch))"
    by (simp add: Some EncodeHello_Some)
  obtain cn ok where w: "WriteToUDP (a_write env) (conn t) hello (peerAddr t) = (cn, ok)"
    by fastforce
  have "transport_ok (t\<lparr>challenge := ch, conn := cn\<rparr>)"
    using transport_ok_write [OF assms w] by (simp add: transport_ok_def)
  then show ?thesis
    using handshake_ok.loop_keeps [of "(t\<lparr>challenge := ch, conn := cn\<rparr>, c1)" "a_obs env"]
    by (simp add: attemptHandshake_eq [OF e w])
qed

lemma Connect_iter_ok:
  assumes "transport_ok t" and "Connect_iter ob ((t, c), n, ds) = (((t', c'), n', ds'), x)"
  shows "transport_ok t'"
  using assms attemptHandshake_ok [OF assms(1), of "k_attempt ob" c]
  by (auto simp: Let_def split: prod.splits option.splits if_splits)

declare Connect_iter.simps [simp del]

interpretation connect_ok: loop_invariant Connect_iter "\<lambda>s. transport_ok (fst (fst s))"
  by unfold_locales (auto intro: Connect_iter_ok)

lemma New_ok: "New env cfg = Inr t0 \<Longrightarrow> transport_ok t0"
  by (auto simp: New_def setupListen_def setupConnect_def transport_ok_def Let_def
      split: if_splits option.splits)

lemma WaitForPeer_ok: "transport_ok t \<Longrightarrow> transport_ok (fst (fst (WaitForPeer obs t c)))"
  using wait_ok.loop_keeps [of "(t, c)" obs] by (simp add: WaitForPeer_def)

lemma Connect_ok: "transport_ok t \<Longrightarrow> transport_ok (fst (fst (Connect ks t c)))"
  using connect_ok.loop_keeps [of "((t, c), 0, [])" ks] by (simp add: Connect_def case_prod_beta)

lemma Send_ok: "transport_ok t \<Longrightarrow> transport_ok (fst (Send ok t data))"
  by (auto simp: Send_def intro: transport_ok_write split: prod.splits)

lemma SendBye_ok: "transport_ok t \<Longrightarrow> transport_ok (fst (fst (SendBye ok t c)))"
  by (auto simp: SendBye_def intro: transport_ok_write split: prod.splits)

lemma Close_ok: "transport_ok t \<Longrightarrow> transport_ok (Close t)"
  by (auto simp: Close_def transport_ok_def)

text \<open>
  C16. Every operation of the transport keeps the state invariant (a closed transport is
  disconnected with a closed socket, a connected one has a peer and an open socket), and a
  new transport satisfies it.
\<close>

theorem transport_invariant:
  assumes "transport_ok t"
  shows "(New env cfg = Inr t0 \<longrightarrow> transport_ok t0) \<and>
         transport_ok (fst (fst (WaitForPeer obs t c))) \<and>
         transport_ok (fst (fst (attemptHandshake aenv t c))) \<and>
         transport_ok (fst (fst (Connect ks t c))) \<and>
         transport_ok (fst (Send ok t data)) \<and>
         transport_ok (fst (fst (SendBye ok t c))) \<and>
         transport_ok (Close t)"
  using assms
  by (auto intro: New_ok WaitForPeer_ok attemptHandshake_ok Connect_ok Send_ok SendBye_ok Close_ok)

definition sample_addr :: UDPAddr where
  "sample_addr = \<lparr>IP = [203, 0, 113, 50], Port = 31415\<rparr>"

definition sample_transport :: "Mode \<Rightarrow> Transport" where
  "sample_transport m =
     \<lparr>conn = Some new_UDPConn, peerAddr = Some sample_addr, mode = m, challenge = [],
      connected = True, closed = False\<rparr>"

theorem transport_invariant_witness:
  "transport_ok (Close (sample_transport ModeListen))"
  using transport_invariant [of "sample_transport ModeListen"]
  by (simp add: transport_ok_def sample_transport_def new_UDPConn_def)

section \<open>What a completed handshake proves\<close>

lemma keys_EncodeHelloAck [simp]:
  "psk (fst (EncodeHelloAck c ch)) = psk c" "secureMode (fst (EncodeHelloAck c ch)) = secureMode c"
  "recvNonce (fst (EncodeHelloAck c ch)) = recvNonce c"
  by (simp_all add: EncodeHelloAck_def Let_def)

lemma keys_EncodeBye [simp]:
  "psk (fst (EncodeBye c)) = psk c" "secureMode (fst (EncodeBye c)) = secureMode c"
  by (simp_all add: EncodeBye_def)

definition same_key :: "Codec \<Rightarrow> Codec \<Rightarrow> bool" where
  "same_key c d \<longleftrightarrow> psk d = psk c \<and> secureMode d = secureMode c"

lemma same_key_refl [simp]: "same_key c c"
  by (simp add: same_key_def)

lemma same_key_Decode: "Decode d data = (d', r) \<Longrightarrow> same_key c d \<Longrightarrow> same_key c d'"
  using fst_Decode [of d data] decode_keeps [of d data] by (auto simp: same_key_def)

lemma WaitForPeer_iter_key:
  assumes "same_key c0 c" and "WaitForPeer_iter ob (t, c) = ((t', c'), x)"
  shows "same_key c0 c'"
proof (cases "\<exists>data addr msg. \<not> w_done ob \<and> ReadFromUDP (conn t) (w_read ob) = ReadPacket data addr \<and>
      snd (Decode c data) = Ret msg")
  case True
  then obtain data addr c1 msg where d: "\<not> w_done ob"
    and r: "ReadFromUDP (conn t) (w_read ob) = ReadPacket data addr"
    and m: "Decode c data = (c1, Ret msg)" by (metis surjective_pairing)
  have c1: "same_key c0 c1" using same_key_Decode [OF m assms(1)] .
  show ?thesis
  proof (cases "msgType msg = MsgHello")
    case True
    obtain c3 ack where e: "EncodeHelloAck (ResetRecvNonce c1) (Challenge msg) = (c3, ack)" by fastforce
    obtain cn ok where w: "WriteToUDP (w_write ob) (conn t) ack (Some addr) = (cn, ok)" by fastforce
    have "c' = c3" using WaitForPeer_iter_hello [OF d r m True e w] assms(2) by simp
    then show ?thesis using c1 e keys_EncodeHelloAck [of "ResetRecvNonce c1" "Challenge msg"]
      by (simp add: same_key_def)
  next
    case False
    obtain c2 bye where e: "EncodeBye c1 = (c2, bye)" by fastforce
    obtain cn ok where w: "WriteToUDP (w_write ob) (conn t) bye (Some addr) = (cn, ok)" by fastforce
    have "c' = c2" using WaitForPeer_iter_other [OF d r m False e w] assms(2) by simp
    then show ?thesis using c1 e keys_EncodeBye [of c1] by (simp add: same_key_def)
  qed
next
  case False
  then have "c' = c \<or> (\<exists>data r. Decode c data = (c', r))"
    using assms(2) by (auto simp: WaitForPeer_iter.simps split: read_result.splits outcome.splits prod.splits if_splits)
  with assms(1) show ?thesis by (auto dest: same_key_Decode)
qed

lemma attemptHandshake_iter_key:
  assumes "same_key c0 c" and "attemptHandshake_iter ob (t, c) = ((t', c'), x)"
  shows "same_key c0 c' \<and> peerAddr t' = peerAddr t \<and> challenge t' = challenge t"
proof -
  have "peerAddr t' = peerAddr t \<and> challenge t' = challenge t \<and>
      (c' = c \<or> (\<exists>data r c1. Decode c data = (c1, r) \<and> (c' = c1 \<or> c' = ResetRecvNonce c1)))"
    using assms(2)
    by (auto simp: attemptHandshake_iter.simps
        split: read_result.splits outcome.splits prod.splits if_splits)
  with assms(1) show ?thesis
    by (auto dest!: same_key_Decode [where c = c0]) (auto simp: same_key_def)
qed

interpretation wait_key: loop_invariant WaitForPeer_iter "\<lambda>s. same_key c0 (snd s)" for c0
  by unfold_locales (auto intro: WaitForPeer_iter_key)

interpretation handshake_key: loop_invariant attemptHandshake_iter
  "\<lambda>s. same_key c0 (snd s) \<and> peerAddr (fst s) = a \<and> challenge (fst s) = ch" for c0 a ch
  by unfold_locales (auto dest: attemptHandshake_iter_key)

lemma Decode_keyedE:
  assumes "secureMode c" and "Decode c data = (c1, Ret msg)"
  obtains n p where "data = sealed (psk c) (msgType msg) n p" and "parsePayload (msgType msg) p = Ret msg"
proof -
  obtain t p where d: "decode c data = (c1, Ret (t, p))" and p: "parsePayload t p = Ret msg"
    using assms(2) by (auto simp: Decode_def split: prod.splits outcome.splits)
  have "msgType msg = t"
    using p by (auto simp: parsePayload_def new_Message_def Let_def split: if_splits option.splits)
  with d p that assms(1) show thesis by (elim decode_acceptedE) auto
qed

lemma parse_ack_shape:
  assumes "parsePayload MsgHelloAck p = Ret msg"
  shows "take 2 p = PutUint16 1" and "Response msg = sub_slice 2 34 p" and "34 \<le> length p"
proof -
  have len: "34 \<le> length p" and v: "Uint16 (take 2 p) = 1" and r: "Response msg = sub_slice 2 34 p"
    using assms
    by (auto simp: parsePayload_def new_Message_def Let_def go_slice_def sub_slice_def split: if_splits)
  show "34 \<le> length p" "Response msg = sub_slice 2 34 p" by (fact len r)+
  show "take 2 p = PutUint16 1" using PutUint16_Uint16 [of "take 2 p"] len v by simp
qed

lemma WaitForPeer_nilE:
  assumes "WaitForPeer obs t c = ((t', c'), Some None)"
  obtains ob data addr c1 c2 msg ack k where "ob \<in> set obs" and "w_read ob = ReadPacket data addr"
    and "same_key c c1" and "Decode c1 data = (c2, Ret msg)" and "msgType msg = MsgHello"
    and "EncodeHelloAck (ResetRecvNonce c2) (Challenge msg) = (c', ack)"
    and "connected t'" and "peerAddr t' = Some addr" and "challenge t' = Challenge msg"
    and "conn t' = Some k" and "last (conn_sent k) = (ack, addr)"
proof -
  have "script_loop WaitForPeer_iter obs (t, c) = ((t', c'), Some None)"
    using assms by (simp add: WaitForPeer_def split: if_splits)
  then obtain xs ob ys t1 c1 where obs: "obs = xs @ ob # ys"
    and pre: "script_loop WaitForPeer_iter xs (t, c) = ((t1, c1), None)"
    and it: "WaitForPeer_iter ob (t1, c1) = ((t', c'), Return None)"
    by (elim script_loop_returnedE) auto
  have key: "same_key c c1" using wait_key.loop_waiting [OF _ pre, of c] by simp
  obtain data addr c2 msg where d: "\<not> w_done ob"
    and r: "ReadFromUDP (conn t1) (w_read ob) = ReadPacket data addr"
    and m: "Decode c1 data = (c2, Ret msg)"
    using WaitForPeer_iter_quiet [of ob t1 c1] it by (metis prod.collapse snd_conv)
  obtain cb bye where eb: "EncodeBye c2 = (cb, bye)" by fastforce
  obtain c3 ack where e: "EncodeHelloAck (ResetRecvNonce c2) (Challenge msg) = (c3, ack)" by fastforce
  obtain cn ok where w: "WriteToUDP (w_write ob) (conn t1) ack (Some addr) = (cn, ok)" by fastforce
  obtain cnb okb where wb: "WriteToUDP (w_write ob) (conn t1) bye (Some addr) = (cnb, okb)" by fastforce
  have hello: "msgType msg = MsgHello"
    using WaitForPeer_iter_other [OF d r m _ eb wb] it by (cases "msgType msg = MsgHello") auto
  have fin: "ok" "c' = c3" "t' = t1\<lparr>peerAddr := Some addr, challenge := Challenge msg, conn := cn, connected := True\<rparr>"
    using WaitForPeer_iter_hello [OF d r m hello e w] it by (auto split: if_splits)
  obtain k where "cn = Some (k\<lparr>conn_sent := conn_sent k @ [(ack, addr)]\<rparr>)"
    using WriteToUDP_cases [OF w] fin(1) by auto
  then show thesis
    using that [of ob data addr c1 c2 msg ack] obs r key m hello e fin by (auto simp: ReadFromUDP_packet)
qed

lemma WaitForPeer_window:
  assumes "WaitForPeer obs t c = ((t', c'), Some None)"
  shows "same_key c c' \<and> recvNonce c' = 0"
  using assms
proof (rule WaitForPeer_nilE)
  fix c1 c2 data msg ack
  assume "same_key c c1" and m: "Decode c1 data = (c2, Ret msg)"
    and e: "EncodeHelloAck (ResetRecvNonce c2) (Challenge msg) = (c', ack)"
  have "same_key c c2" using same_key_Decode [OF m \<open>same_key c c1\<close>] .
  then show ?thesis
    using e keys_EncodeHelloAck [of "ResetRecvNonce c2" "Challenge msg"] by (simp add: same_key_def)
qed

text \<open>
  C4. A listener with a key connects only to a peer that knows the key: if \<^verbatim>\<open>WaitForPeer\<close>
  returns nil, one of the datagrams it read was a HELLO tagged under that key; the transport is
  connected, its peer is the sender of that datagram, the last datagram written is the
  HELLO_ACK to that sender, and the receive window starts at zero.
\<close>

theorem WaitForPeer_authentic:
  assumes "secureMode c" and "WaitForPeer obs t c = ((t', c'), Some None)"
  shows "\<exists>ob \<in> set obs. \<exists>data addr n p c3 ack k.
     w_read ob = ReadPacket data addr \<and> data = sealed (psk c) MsgHello n p \<and>
     connected t' \<and> peerAddr t' = Some addr \<and> recvNonce c' = 0 \<and>
     EncodeHelloAck c3 (challenge t') = (c', ack) \<and>
     conn t' = Some k \<and> last (conn_sent k) = (ack, addr)"
  using assms(2)
proof (rule WaitForPeer_nilE)
  fix ob data addr c1 c2 msg ack k
  assume ob: "ob \<in> set obs" "w_read ob = ReadPacket data addr" and key: "same_key c c1"
    and m: "Decode c1 data = (c2, Ret msg)" and hello: "msgType msg = MsgHello"
    and e: "EncodeHelloAck (ResetRecvNonce c2) (Challenge msg) = (c', ack)"
    and fin: "connected t'" "peerAddr t' = Some addr" "challenge t' = Challenge msg"
      "conn t' = Some k" "last (conn_sent k) = (ack, addr)"
  have "secureMode c1" "psk c1 = psk c" using key assms(1) by (simp_all add: same_key_def)
  then obtain n p where "data = sealed (psk c) MsgHello n p"
    using hello by (metis Decode_keyedE [OF _ m])
  with ob e fin WaitForPeer_window [OF assms(2)] show ?thesis by (intro bexI [of _ ob]) auto
qed

lemma Decode_sealed_hello:
  assumes "secureMode c" and "length ch = 16"
  shows "Decode c (sealed (psk c) MsgHello n (PutUint16 1 @ ch)) =
     (c, Ret ((new_Message MsgHello)\<lparr>Version := 1, Challenge := ch\<rparr>))"
  using parsePayload_hello [OF assms(2), of 1 "[]"] assms(1)
  by (simp add: Decode_def decode_sealed is_handshake_def)

lemma Decode_sealed_ack:
  assumes "secureMode c" and "length re = 32"
  shows "Decode c (sealed (psk c) MsgHelloAck n (PutUint16 1 @ re)) =
     (c, Ret ((new_Message MsgHelloAck)\<lparr>Version := 1, Response := re\<rparr>))"
  using parsePayload_ack [OF assms(2), of 1 "[]"] assms(1)
  by (simp add: Decode_def decode_sealed is_handshake_def)

theorem WaitForPeer_authentic_witness:
  "\<exists>t' c'. WaitForPeer
      [\<lparr>w_done = False, w_read = ReadPacket (sealed [0x6b] MsgHello 1 (PutUint16 1 @ replicate 16 7)) sample_addr,
        w_write = True\<rparr>]
      ((sample_transport ModeListen)\<lparr>connected := False, peerAddr := None\<rparr>) (NewCodec [0x6b]) =
        ((t', c'), Some None) \<and> connected t' \<and> peerAddr t' = Some sample_addr \<and> recvNonce c' = 0"
proof -
  let ?c = "NewCodec [0x6b]"
  let ?hello = "sealed [0x6b] MsgHello 1 (PutUint16 1 @ replicate 16 7)"
  let ?ob = "\<lparr>w_done = False, w_read = ReadPacket ?hello sample_addr, w_write = True\<rparr>"
  let ?t = "(sample_transport ModeListen)\<lparr>connected := False, peerAddr := None\<rparr>"
  have sec: "secureMode ?c" by (simp add: NewCodec_def)
  have m: "Decode ?c ?hello = (?c, Ret ((new_Message MsgHello)\<lparr>Version := 1, Challenge := replicate 16 7\<rparr>))"
    using Decode_sealed_hello [OF sec, of "replicate 16 7" 1] by (simp add: NewCodec_def)
  obtain t' c' where run: "WaitForPeer [?ob] ?t ?c = ((t', c'), Some None)"
    by (simp add: WaitForPeer_def WaitForPeer_iter.simps sample_transport_def new_UDPConn_def
        ReadFromUDP_def m [unfolded MsgHello_def] WriteToUDP_def new_Message_def case_prod_beta Let_def)
  show ?thesis using WaitForPeer_authentic [OF sec run] run by auto
qed

text \<open>What is known when an attempt returns nil.\<close>

lemma attemptHandshake_nilE:
  assumes "attemptHandshake env t c = ((t', c'), Some None)"
  obtains r ob data addr c2 c3 msg where "a_rand env = Some r" and "ob \<in> set (a_obs env)"
    and "h_read ob = ReadPacket data addr" and "addrEqual (Some addr) (peerAddr t)" and "same_key c c2"
    and "Decode c2 data = (c3, Ret msg)" and "msgType msg = MsgHelloAck"
    and "IsSecure c3 \<Longrightarrow> VerifyChallengeResponse c3 (fill 16 r) (Response msg)"
    and "connected t'" and "c' = ResetRecvNonce c3"
proof -
  obtain r where rnd: "a_rand env = Some r"
    using assms by (cases "a_rand env") (auto simp: attemptHandshake_no_rand)
  let ?ch = "fill 16 r"
  obtain c1 hello where e: "EncodeHello (a_rand env) c = (c1, Ret (hello, ?ch))" and k1: "same_key c c1"
    by (simp add: rnd EncodeHello_Some same_key_def)
  obtain cn ok where w: "WriteToUDP (a_write env) (conn t) hello (peerAddr t) = (cn, ok)" by fastforce
  let ?t1 = "t\<lparr>challenge := ?ch, conn := cn\<rparr>"
  have "script_loop attemptHandshake_iter (a_obs env) (?t1, c1) = ((t', c'), Some None)"
    using assms by (simp add: attemptHandshake_eq [OF e w] split: if_splits)
  then obtain xs ob ys t2 c2 where obs: "a_obs env = xs @ ob # ys"
    and pre: "script_loop attemptHandshake_iter xs (?t1, c1) = ((t2, c2), None)"
    and it: "attemptHandshake_iter ob (t2, c2) = ((t', c'), Return None)"
    by (elim script_loop_returnedE) auto
  have st: "same_key c c2" "peerAddr t2 = peerAddr t" "challenge t2 = ?ch"
    using handshake_key.loop_waiting [OF _ pre, of c "peerAddr t" ?ch] k1 by simp_all
  obtain data addr c3 msg where "h_read ob = ReadPacket data addr"
    and "addrEqual (Some addr) (peerAddr t2)" and "Decode c2 data = (c3, Ret msg)" and "msgType msg = MsgHelloAck"
    and "IsSecure c3 \<Longrightarrow> VerifyChallengeResponse c3 (challenge t2) (Response msg)"
    and "t' = t2\<lparr>connected := True\<rparr>" "c' = ResetRecvNonce c3"
    using it by (auto simp: attemptHandshake_iter.simps ReadFromUDP_packet
        split: read_result.splits outcome.splits prod.splits if_splits)
  then show ?thesis using that [of r ob data addr c2 c3 msg] rnd obs st by simp
qed

text \<open>A HELLO_ACK that passes the check carries the tag of the challenge under the key.\<close>

lemma ack_answers:
  assumes "secureMode c" and "same_key c c2" and "Decode c2 data = (c3, Ret msg)" and "msgType msg = MsgHelloAck"
    and "IsSecure c3 \<Longrightarrow> VerifyChallengeResponse c3 ch (Response msg)"
  shows "\<exists>n rest. data = sealed (psk c) MsgHelloAck n (PutUint16 1 @ hmac_sha256 (psk c) ch @ rest)"
proof -
  have k3: "same_key c c3" using same_key_Decode [OF assms(3,2)] .
  obtain n p where d: "data = sealed (psk c) MsgHelloAck n p" and p: "parsePayload MsgHelloAck p = Ret msg"
    using Decode_keyedE [OF _ assms(3)] assms(1,2,4) by (auto simp: same_key_def)
  note shape = parse_ack_shape [OF p]
  have "sub_slice 2 34 p = hmac_sha256 (psk c) ch"
    using assms(1,5) k3 shape by (auto simp: IsSecure_def VerifyChallengeResponse_def same_key_def computeHMAC_def split: if_splits)
  moreover have "sub_slice 2 34 p @ drop 34 p = drop 2 p"
    using append_take_drop_id [of 32 "drop 2 p"] by (simp add: sub_slice_def)
  then have "p = take 2 p @ sub_slice 2 34 p @ drop 34 p" by simp
  ultimately show ?thesis using shape(1) d by metis
qed

text \<open>
  C5. A connector with a key connects only after a fresh proof of the key: if an attempt
  returns nil, a datagram from the configured peer was a HELLO_ACK tagged under the key whose
  payload carries the HMAC of the sixteen random bytes drawn for this attempt.
\<close>

theorem attemptHandshake_authentic:
  assumes "secureMode c" and "attemptHandshake env t c = ((t', c'), Some None)"
  shows "\<exists>r. a_rand env = Some r \<and>
    (\<exists>ob \<in> set (a_obs env). \<exists>data addr n rest.
       h_read ob = ReadPacket data addr \<and> addrEqual (Some addr) (peerAddr t) \<and>
       data = sealed (psk c) MsgHelloAck n (PutUint16 1 @ hmac_sha256 (psk c) (fill 16 r) @ rest)) \<and>
    connected t' \<and> recvNonce c' = 0"
proof (rule attemptHandshake_nilE [OF assms(2)], goal_cases)
  case (1 r ob data addr c2 c3 msg)
  then have "\<exists>n rest. data = sealed (psk c) MsgHelloAck n (PutUint16 1 @ hmac_sha256 (psk c) (fill 16 r) @ rest)"
    using ack_answers [OF assms(1)] by blast
  moreover have "recvNonce c' = 0" using 1(10) by simp
  ultimately show ?case using 1(1-4,9) by blast
qed

theorem attemptHandshake_authentic_witness:
  "\<exists>t' c'. attemptHandshake
      \<lparr>a_rand = Some (replicate 16 7), a_write = True,
       a_obs = [\<lparr>h_before = True, h_done = False,
         h_read = ReadPacket (sealed [0x6b] MsgHelloAck 5
           (PutUint16 1 @ hmac_sha256 [0x6b] (replicate 16 7))) sample_addr\<rparr>]\<rparr>
      ((sample_transport ModeConnect)\<lparr>connected := False\<rparr>) (NewCodec [0x6b]) = ((t', c'), Some None) \<and>
     connected t' \<and> recvNonce c' = 0"
proof -
  let ?c = "NewCodec [0x6b]" and ?ch = "replicate 16 (7 :: byte)"
  let ?ack = "sealed [0x6b] MsgHelloAck 5 (PutUint16 1 @ hmac_sha256 [0x6b] ?ch)"
  let ?env = "\<lparr>a_rand = Some ?ch, a_write = True,
      a_obs = [\<lparr>h_before = True, h_done = False, h_read = ReadPacket ?ack sample_addr\<rparr>]\<rparr>"
  let ?t = "(sample_transport ModeConnect)\<lparr>connected := False\<rparr>"
  have sec: "secureMode ?c" by (simp add: NewCodec_def)
  have fl: "fill 16 ?ch = ?ch" by (simp add: fill_def)
  obtain c1 hello where e: "EncodeHello (a_rand ?env) ?c = (c1, Ret (hello, ?ch))"
    and k1: "psk c1 = [0x6b]" "secureMode c1"
    using sec by (simp add: EncodeHello_Some fl) (simp add: NewCodec_def)
  obtain cn where w: "WriteToUDP (a_write ?env) (conn ?t) hello (peerAddr ?t) = (cn, True)"
    and cn: "\<exists>k. cn = Some k \<and> \<not> conn_closed k"
    by (simp add: sample_transport_def new_UDPConn_def WriteToUDP_def)
  have m: "Decode c1 ?ack =
      (c1, Ret ((new_Message MsgHelloAck)\<lparr>Version := 1, Response := hmac_sha256 [0x6b] ?ch\<rparr>))"
    using Decode_sealed_ack [OF k1(2), of "hmac_sha256 [0x6b] ?ch" 5] k1(1) by simp
  have loop: "attemptHandshake ?env ?t ?c =
      script_loop attemptHandshake_iter (a_obs ?env) (?t\<lparr>challenge := ?ch, conn := cn\<rparr>, c1)"
    using attemptHandshake_eq [OF e w] by (simp only: if_True)
  obtain t' c' where run: "attemptHandshake ?env ?t ?c = ((t', c'), Some None)"
    unfolding loop using cn k1 m
    by (auto simp: attemptHandshake_iter.simps ReadFromUDP_def IsSecure_def
        sample_transport_def new_Message_def VerifyChallengeResponse_def computeHMAC_def)
  show ?thesis using attemptHandshake_authentic [OF sec run] run by auto
qed

section \<open>The listener gets there\<close>

lemma Decode_handshake_indep:
  assumes "same_key c d" and "Decode c m = (c', Ret msg)" and "is_handshake (msgType msg)"
  shows "Decode d m = (d, Ret msg)"
proof (cases "secureMode c")
  case True
  obtain n p where "m = sealed (psk c) (msgType msg) n p" and "parsePayload (msgType msg) p = Ret msg"
    using Decode_keyedE [OF True assms(2)] .
  then show ?thesis using assms(1,3) True
    by (simp add: Decode_def decode_sealed same_key_def)
next
  case False
  then obtain t p where "m = t # p" and "parsePayload t p = Ret msg"
    using assms(2)
    by (cases m) (auto simp: Decode_def decode_insecure, simp add: decode_def)
  then show ?thesis using assms(1) False by (simp add: Decode_def decode_insecure same_key_def)
qed

definition conn_open :: "Transport \<Rightarrow> bool" where
  "conn_open t \<longleftrightarrow> (\<exists>k. conn t = Some k \<and> \<not> conn_closed k)"

text \<open>An observation that is no reason to stop waiting: a timeout, or a packet that is not a HELLO.\<close>

definition not_hello :: "Codec \<Rightarrow> wait_obs \<Rightarrow> bool" where
  "not_hello c ob \<longleftrightarrow> \<not> w_done ob \<and>
     (case w_read ob of
        ReadTimeoutErr \<Rightarrow> True
      | ReadError \<Rightarrow> False
      | ReadPacket data addr \<Rightarrow>
          (case snd (Decode c data) of Ret msg \<Rightarrow> msgType msg \<noteq> MsgHello | _ \<Rightarrow> True))"

lemma WaitForPeer_iter_waits:
  assumes "conn_open t" and "same_key c c1" and "not_hello c ob"
  shows "\<exists>t' c'. WaitForPeer_iter ob (t, c1) = ((t', c'), Continue) \<and> conn_open t' \<and> same_key c c'"
proof (cases "w_read ob")
  case ReadTimeoutErr
  with assms show ?thesis
    by (auto simp: WaitForPeer_iter.simps ReadFromUDP_def conn_open_def not_hello_def)
next
  case ReadError
  with assms(3) show ?thesis by (simp add: not_hello_def)
next
  case (ReadPacket data addr)
  have d: "\<not> w_done ob" using assms(3) by (simp add: not_hello_def)
  have r: "ReadFromUDP (conn t) (w_read ob) = ReadPacket data addr"
    using ReadPacket assms(1) by (auto simp: ReadFromUDP_def conn_open_def)
  obtain c2 res where m: "Decode c1 data = (c2, res)" by fastforce
  have k2: "same_key c c2" using same_key_Decode [OF m assms(2)] .
  show ?thesis
  proof (cases res)
    case (Ret msg)
    have "msgType msg \<noteq> MsgHello"
    proof
      assume "msgType msg = MsgHello"
      then have "Decode c data = (c, Ret msg)"
        using Decode_handshake_indep [of c1 c data c2 msg] m Ret assms(2)
        by (simp add: same_key_def is_handshake_def)
      with assms(3) ReadPacket \<open>msgType msg = MsgHello\<close> show False by (simp add: not_hello_def)
    qed
    obtain c3 bye where e: "EncodeBye c2 = (c3, bye)" by fastforce
    obtain cn ok where w: "WriteToUDP (w_write ob) (conn t) bye (Some addr) = (cn, ok)" by fastforce
    have "conn_open (t\<lparr>conn := cn\<rparr>)"
      using assms(1) WriteToUDP_cases [OF w] by (auto simp: conn_open_def)
    moreover have "same_key c c3" using k2 e keys_EncodeBye [of c2] by (simp add: same_key_def)
    ultimately show ?thesis
      using WaitForPeer_iter_other [OF d r m [unfolded Ret] \<open>msgType msg \<noteq> MsgHello\<close> e w] by auto
  next
    case (Err x)
    with d r m k2 assms(1) show ?thesis by (auto simp: WaitForPeer_iter.simps)
  next
    case Panic
    then show ?thesis using m Decode_not_panic [of c1 data] by simp
  qed
qed

lemma WaitForPeer_prefix:
  assumes "conn_open t" and "same_key c c1" and "\<forall>ob \<in> set xs. not_hello c ob"
  shows "\<exists>t' c'. script_loop WaitForPeer_iter xs (t, c1) = ((t', c'), None) \<and> conn_open t' \<and> same_key c c'"
  using assms
proof (induction xs arbitrary: t c1)
  case Nil
  then show ?case by simp
next
  case (Cons ob xs)
  then obtain t' c' where "WaitForPeer_iter ob (t, c1) = ((t', c'), Continue)" "conn_open t'" "same_key c c'"
    using WaitForPeer_iter_waits [of t c c1 ob] by auto
  with Cons.IH [of t' c'] Cons.prems(3) show ?case by auto
qed

text \<open>
  C18. The listener connects as soon as a HELLO arrives: after any number of timeouts, garbled
  datagrams and messages of other types (each answered or ignored), a HELLO that decodes under
  the codec's key, with a working socket, makes \<^verbatim>\<open>WaitForPeer\<close> return nil, connected to the
  sender of the HELLO.
\<close>

theorem WaitForPeer_connects:
  assumes "mode t = ModeListen" and "conn_open t" and "\<forall>ob \<in> set xs. not_hello c ob"
    and "\<not> w_done ob" and "w_read ob = ReadPacket hello addr" and "w_write ob"
    and "snd (Decode c hello) = Ret msg" and "msgType msg = MsgHello"
  shows "\<exists>t' c'. WaitForPeer (xs @ [ob]) t c = ((t', c'), Some None) \<and>
           IsConnected t' \<and> PeerAddr t' = Some addr \<and> challenge t' = Challenge msg"
proof -
  obtain t1 c1 where pre: "script_loop WaitForPeer_iter xs (t, c) = ((t1, c1), None)"
    and op: "conn_open t1" and key: "same_key c c1"
    using WaitForPeer_prefix [OF assms(2) same_key_refl assms(3)] by blast
  have r: "ReadFromUDP (conn t1) (w_read ob) = ReadPacket hello addr"
    using op by (auto simp: assms(5) ReadFromUDP_def conn_open_def)
  have m: "Decode c1 hello = (c1, Ret msg)"
    using Decode_handshake_indep [OF key] assms(7,8)
    by (metis is_handshake_def surjective_pairing)
  obtain c3 ack where e: "EncodeHelloAck (ResetRecvNonce c1) (Challenge msg) = (c3, ack)" by fastforce
  obtain k where k: "conn t1 = Some k" "\<not> conn_closed k" using op by (auto simp: conn_open_def)
  have w: "WriteToUDP (w_write ob) (conn t1) ack (Some addr) =
      (Some (k\<lparr>conn_sent := conn_sent k @ [(ack, addr)]\<rparr>), True)"
    by (simp add: k assms(6) WriteToUDP_def)
  show ?thesis
    using WaitForPeer_iter_hello [OF assms(4) r m assms(8) e w] assms(1) pre
    by (simp add: WaitForPeer_def script_loop_append IsConnected_def PeerAddr_def)
qed

theorem WaitForPeer_connects_witness:
  "\<exists>t' c'. WaitForPeer
      [\<lparr>w_done = False, w_read = ReadTimeoutErr, w_write = True\<rparr>,
       \<lparr>w_done = False, w_read = ReadPacket [] sample_addr, w_write = True\<rparr>,
       \<lparr>w_done = False, w_read = ReadPacket (MsgHello # PutUint16 1 @ replicate 16 7) sample_addr, w_write = True\<rparr>]
      ((sample_transport ModeListen)\<lparr>connected := False, peerAddr := None\<rparr>) (NewCodec []) =
        ((t', c'), Some None) \<and>
     IsConnected t' \<and> PeerAddr t' = Some sample_addr \<and> challenge t' = replicate 16 7"
proof -
  let ?xs = "[\<lparr>w_done = False, w_read = ReadTimeoutErr, w_write = True\<rparr>,
     \<lparr>w_done = False, w_read = ReadPacket [] sample_addr, w_write = True\<rparr>]"
  let ?t = "(sample_transport ModeListen)\<lparr>connected := False, peerAddr := None\<rparr>"
  have "Decode (NewCodec []) (MsgHello # PutUint16 1 @ replicate 16 7) =
      (NewCodec [], Ret ((new_Message MsgHello)\<lparr>Version := 1, Challenge := replicate 16 7\<rparr>))"
    using parsePayload_hello [of "replicate 16 7" 1 "[]"]
    by (simp add: Decode_def NewCodec_def decode_insecure)
  moreover have "\<forall>ob \<in> set ?xs. not_hello (NewCodec []) ob"
    by (simp add: not_hello_def Decode_def decode_def)
  moreover have "conn_open ?t" by (simp add: conn_open_def sample_transport_def new_UDPConn_def)
  ultimately show ?thesis
    using WaitForPeer_connects [of ?t ?xs "NewCodec []"
        "\<lparr>w_done = False, w_read = ReadPacket (MsgHello # PutUint16 1 @ replicate 16 7) sample_addr, w_write = True\<rparr>"
        "MsgHello # PutUint16 1 @ replicate 16 7" sample_addr]
    by (simp add: sample_transport_def new_Message_def)
qed

section \<open>The connector\<close>

lemma backoffDelay_eq:
  "backoffDelay n = (if n = 0 then 1000000000 else if n = 1 then 2000000000
     else if n = 2 then 5000000000 else 10000000000)"
proof -
  consider "n = 0" | "n = 1" | "n = 2" | "n = 3" | "4 \<le> n" by linarith
  then show ?thesis by cases (simp_all add: backoffDelay_def connectBackoff_def)
qed

lemma backoffDelay_mono: "i \<le> j \<Longrightarrow> backoffDelay i \<le> backoffDelay j"
  by (auto simp: backoffDelay_eq)

text \<open>
  What \<^verbatim>\<open>Connect\<close> keeps between attempts: the delays waited so far are the first \<open>attempt\<close>
  entries of the schedule. It returns nil connected, or the context's error after an iteration
  that saw the context done.
\<close>

lemma attemptHandshake_nil_connected:
  assumes "attemptHandshake env t c = ((t', c'), Some None)"
  shows "connected t'"
proof -
  obtain r where rnd: "a_rand env = Some r"
    using assms by (cases "a_rand env") (auto simp: attemptHandshake_no_rand)
  obtain c1 hello ch where e: "EncodeHello (a_rand env) c = (c1, Ret (hello, ch))"
    by (simp add: rnd EncodeHello_Some)
  obtain cn ok where w: "WriteToUDP (a_write env) (conn t) hello (peerAddr t) = (cn, ok)" by fastforce
  have "script_loop attemptHandshake_iter (a_obs env) (t\<lparr>challenge := ch, conn := cn\<rparr>, c1) = ((t', c'), Some None)"
    using assms by (simp add: attemptHandshake_eq [OF e w] split: if_splits)
  then obtain ob t2 c2 where "attemptHandshake_iter ob (t2, c2) = ((t', c'), Return None)"
    by (elim script_loop_returnedE) auto
  then show ?thesis
    by (auto simp: attemptHandshake_iter.simps
        split: read_result.splits outcome.splits prod.splits if_splits)
qed

definition connect_delays_ok :: "tc \<times> nat \<times> int list \<Rightarrow> bool" where
  "connect_delays_ok = (\<lambda>(s, n, ds). ds = map backoffDelay [0..<n])"

definition connect_post :: "tc \<times> nat \<times> int list \<Rightarrow> transport_error option option \<Rightarrow> bool" where
  "connect_post = (\<lambda>((t, c), n, ds) r.
     (ds = map backoffDelay [0..<n] \<or> ds = map backoffDelay [0..<Suc n]) \<and>
     (r = Some None \<longrightarrow> connected t) \<and> (\<forall>e. r = Some (Some e) \<longrightarrow> e = CtxErr))"

interpretation connect_schedule: loop_rule Connect_iter connect_delays_ok connect_post
proof (unfold_locales, goal_cases)
  case (1 s ob s')
  then show ?case
    by (cases s; cases "fst s")
      (auto simp: connect_delays_ok_def Connect_iter.simps Let_def
        split: prod.splits option.splits if_splits)
next
  case (2 s ob s' r)
  then show ?case
    by (cases s; cases "fst s")
      (auto simp: connect_delays_ok_def connect_post_def Connect_iter.simps Let_def
        dest: attemptHandshake_nil_connected split: prod.splits option.splits if_splits)
qed

lemma Connect_iter_error_done:
  "Connect_iter ob s = (s', Return (Some (Some e))) \<Longrightarrow> k_done ob \<or> k_done_in_backoff ob"
  by (cases s; cases "fst s")
    (auto simp: Connect_iter.simps Let_def split: prod.splits option.splits if_splits)

text \<open>
  C17. \<^verbatim>\<open>Connect\<close> retries forever on the documented schedule: the delays it waits are
  1 s, 2 s, 5 s and then 10 s each, never shrinking; it returns an error only when the context
  was done, and the error is then the context's; when it returns nil the transport is connected.
\<close>

theorem Connect_schedule:
  assumes "mode t = ModeConnect" and "Connect obs t c = ((t', c'), delays, r)"
  shows "(\<exists>n. delays = map backoffDelay [0..<n]) \<and> sorted delays \<and>
     (\<forall>i < length delays. delays ! i =
        (if i = 0 then 1 else if i = 1 then 2 else if i = 2 then 5 else 10) * 1000000000) \<and>
     (r = Some None \<longrightarrow> IsConnected t') \<and>
     (\<forall>e. r = Some (Some e) \<longrightarrow> e = CtxErr \<and> (\<exists>ob \<in> set obs. k_done ob \<or> k_done_in_backoff ob))"
proof -
  obtain n x where loop: "script_loop Connect_iter obs ((t, c), 0, []) = (((t', c'), n, delays), x)"
    and r: "r = Option.bind x (\<lambda>x. x)"
    using assms by (auto simp: Connect_def split: prod.splits)
  have start: "connect_delays_ok ((t, c), 0, [])" by (simp add: connect_delays_ok_def)
  have post: "connect_post ((t', c'), n, delays) y" if "x = Some y" for y
    using connect_schedule.loop_returned [OF start] loop that by blast
  have "\<exists>n. delays = map backoffDelay [0..<n]"
  proof (cases x)
    case None
    with loop have "connect_delays_ok ((t', c'), n, delays)"
      using connect_schedule.loop_waiting [OF start] by blast
    then show ?thesis by (auto simp: connect_delays_ok_def)
  next
    case (Some y)
    have "delays = map backoffDelay [0..<n] \<or> delays = map backoffDelay [0..<Suc n]"
      using post [OF Some] by (simp only: connect_post_def prod.case)
    then show ?thesis by blast
  qed
  then obtain m where d: "delays = map backoffDelay [0..<m]" by blast
  moreover have "sorted delays"
    by (auto simp: d sorted_iff_nth_mono intro: backoffDelay_mono)
  moreover have "\<exists>ob \<in> set obs. k_done ob \<or> k_done_in_backoff ob" if "r = Some (Some e)" for e
  proof -
    have "script_loop Connect_iter obs ((t, c), 0, []) = (((t', c'), n, delays), Some (Some (Some e)))"
      using loop that r by (cases x) auto
    then obtain xs ob ys s1 where "obs = xs @ ob # ys"
      and "Connect_iter ob s1 = (((t', c'), n, delays), Return (Some (Some e)))"
      by (elim script_loop_returnedE) auto
    then show ?thesis using Connect_iter_error_done by fastforce
  qed
  moreover have "IsConnected t'" if "r = Some None"
    using that r post by (cases x) (auto simp: connect_post_def IsConnected_def)
  moreover have "e = CtxErr" if "r = Some (Some e)" for e
    using that r post by (cases x) (auto simp: connect_post_def)
  ultimately show ?thesis by (auto simp: backoffDelay_eq)
qed

theorem Connect_schedule_witness:
  "\<exists>t' c' delays. Connect
      (replicate 5 \<lparr>k_done = False, k_attempt = \<lparr>a_rand = None, a_write = True, a_obs = []\<rparr>,
                    k_done_in_backoff = False\<rparr> @
       [\<lparr>k_done = True, k_attempt = \<lparr>a_rand = None, a_write = True, a_obs = []\<rparr>,
         k_done_in_backoff = False\<rparr>])
      ((sample_transport ModeConnect)\<lparr>connected := False\<rparr>) (NewCodec []) = ((t', c'), delays, Some (Some CtxErr)) \<and>
     length delays = 5 \<and> sorted delays \<and> delays ! 4 = 10 * 1000000000"
proof -
  let ?e = "\<lparr>k_done = False, k_attempt = \<lparr>a_rand = None, a_write = True, a_obs = []\<rparr>, k_done_in_backoff = False\<rparr>"
  let ?t = "(sample_transport ModeConnect)\<lparr>connected := False\<rparr>"
  let ?obs = "replicate 5 ?e @ [?e\<lparr>k_done := True\<rparr>]"
  obtain t' c' delays where run: "Connect ?obs ?t (NewCodec []) = ((t', c'), delays, Some (Some CtxErr))"
    and len: "length delays = 5"
    by (simp add: Connect_def Connect_iter.simps attemptHandshake_no_rand sample_transport_def
        numeral_eq_Suc Let_def)
  show ?thesis
    using Connect_schedule [OF _ run] run len by (simp add: sample_transport_def)
qed

section \<open>Closing and sessions\<close>

text \<open>
  After \<^verbatim>\<open>Close\<close> the transport is silent and stays closed: it is not connected, a send
  fails with ErrClosed, a receive reports ErrClosed whatever arrives, no BYE goes out, the
  datagrams already written are unchanged, and a second \<^verbatim>\<open>Close\<close> changes nothing.
\<close>

lemma Close_final:
  assumes "transport_ok t"
  shows "\<not> IsConnected (Close t) \<and>
     Send ok (Close t) data = (Close t, Some ErrClosed) \<and>
     Recv r (Close t) = RecvErrClosed \<and>
     SendBye ok (Close t) c = ((Close t, c), None) \<and>
     map_option conn_sent (conn (Close t)) = map_option conn_sent (conn t) \<and>
     Close (Close t) = Close t"
  using assms
  by (auto simp: Close_def Send_def Recv_def SendBye_def IsConnected_def transport_ok_def
      option.map_comp o_def)

text \<open>
  C24. The receive window protects one session only. Whatever datagram any codec with this key
  accepted at any earlier time is accepted again, with the same content, right after the
  listener completes a handshake: \<^verbatim>\<open>ResetRecvNonce\<close> forgets the nonces of the previous session
  and the key stays the same.
\<close>

theorem session_reset_replays:
  assumes "WaitForPeer obs t c = ((t', c'), Some None)"
    and "same_key c old" and "Decode old data = (old', Ret msg)"
  shows "snd (Decode c' data) = Ret msg"
proof (cases "secureMode c")
  case True
  have w: "same_key c c'" "recvNonce c' = 0" using WaitForPeer_window [OF assms(1)] by auto
  have "secureMode old" "psk old = psk c" using assms(2) True by (simp_all add: same_key_def)
  then obtain n p where "data = sealed (psk c) (msgType msg) n p" "parsePayload (msgType msg) p = Ret msg"
    using Decode_keyedE [OF _ assms(3)] by metis
  then show ?thesis using w True
    by (auto simp: Decode_def decode_sealed same_key_def word_le_nat_alt word_less_nat_alt)
next
  case False
  then have "\<not> secureMode old" "\<not> secureMode c'"
    using assms(2) WaitForPeer_window [OF assms(1)] by (simp_all add: same_key_def)
  then show ?thesis using assms(3)
    by (cases data) (auto simp: Decode_def decode_insecure, simp_all add: decode_def)
qed

theorem session_reset_replays_witness:
  "\<exists>t' c'. WaitForPeer
      [\<lparr>w_done = False, w_read = ReadPacket (MsgHello # PutUint16 1 @ replicate 16 7) sample_addr, w_write = True\<rparr>]
      ((sample_transport ModeListen)\<lparr>connected := False, peerAddr := None\<rparr>) (NewCodec []) =
        ((t', c'), Some None) \<and>
     snd (Decode c' [MsgBye]) = Ret (new_Message MsgBye)"
proof -
  let ?hello = "MsgHello # PutUint16 1 @ replicate 16 7"
  have m: "Decode (NewCodec []) ?hello =
      (NewCodec [], Ret ((new_Message MsgHello)\<lparr>Version := 1, Challenge := replicate 16 7\<rparr>))"
    using parsePayload_hello [of "replicate 16 7" 1 "[]"]
    by (simp add: Decode_def NewCodec_def decode_insecure)
  obtain t' c' where run: "WaitForPeer [\<lparr>w_done = False, w_read = ReadPacket ?hello sample_addr, w_write = True\<rparr>]
      ((sample_transport ModeListen)\<lparr>connected := False, peerAddr := None\<rparr>) (NewCodec []) = ((t', c'), Some None)"
    by (simp add: WaitForPeer_def WaitForPeer_iter.simps sample_transport_def new_UDPConn_def
        ReadFromUDP_def m [unfolded MsgHello_def] WriteToUDP_def new_Message_def case_prod_beta Let_def)
  have bye: "Decode (NewCodec []) [MsgBye] = (NewCodec [], Ret (new_Message MsgBye))"
    by (simp add: Decode_def NewCodec_def decode_insecure parsePayload_def new_Message_def)
  show ?thesis using session_reset_replays [OF run same_key_refl bye] run by blast
qed

end
