(* ===== verification/Float64.thy ===== *)
theory Float64
  imports GoStd
begin

text \<open>
  The fragment of Go's \<^verbatim>\<open>float64\<close> that the statistics use: conversion from 64-bit integers,
  division, halving, comparison and the \<^verbatim>\<open>%.1f\<close> verb. A value is a significand and a binary
  exponent; every operation rounds to the nearest 53-bit significand, ties to even. The operands
  are integers below \<open>2 ^ 64\<close> and their quotients, far inside the exponent range, so there are
  no infinities and no subnormal numbers.
\<close>

datatype float64 = F64 (significand: int) (exponent: int)

fun bit_len :: "nat \<Rightarrow> nat" where
  "bit_len n = (if n = 0 then 0 else Suc (bit_len (n div 2)))"

declare bit_len.simps [simp del]

text \<open>The nearest integer to a quotient, ties to even.\<close>

definition rne_div :: "nat \<Rightarrow> nat \<Rightarrow> nat" where
  "rne_div a b =
     (let q = a div b; r = a mod b
      in if b < 2 * r \<or> (2 * r = b \<and> odd q) then q + 1 else q)"

definition f64_of_int :: "int \<Rightarrow> float64" where
  "f64_of_int n =
     (let a = nat \<bar>n\<bar>; k = bit_len a - 53
      in F64 (sgn n * int (rne_div a (2 ^ k))) (int k))"

definition f64_div :: "float64 \<Rightarrow> float64 \<Rightarrow> float64" where
  "f64_div x y =
     (let a = nat \<bar>significand x\<bar>; b = nat \<bar>significand y\<bar>;
          s0 = 53 + int (bit_len b) - int (bit_len a);
          s = (if 2 ^ 53 \<le> a * 2 ^ nat s0 div (b * 2 ^ nat (- s0)) then s0 - 1 else s0)
      in F64 (sgn (significand x) * sgn (significand y) *
              int (rne_div (a * 2 ^ nat s) (b * 2 ^ nat (- s))))
             (exponent x - exponent y - s))"

definition f64_half :: "float64 \<Rightarrow> float64" where
  "f64_half x = F64 (significand x) (exponent x - 1)"

definition f64_less :: "float64 \<Rightarrow> float64 \<Rightarrow> bool" where
  "f64_less x y \<longleftrightarrow>
     significand x * 2 ^ nat (exponent x - exponent y) <
     significand y * 2 ^ nat (exponent y - exponent x)"

text \<open>The \<^verbatim>\<open>%.1f\<close> verb on a value that is not negative: the exact value to the nearest tenth.\<close>

definition f64_tenths :: "float64 \<Rightarrow> nat" where
  "f64_tenths x =
     rne_div (10 * nat (significand x) * 2 ^ nat (exponent x)) (2 ^ nat (- exponent x))"

definition fmt_1f :: "float64 \<Rightarrow> string" where
  "fmt_1f x = fmt_d (f64_tenths x div 10) @ ''.'' @ fmt_d (f64_tenths x mod 10)"

section \<open>Shortest decimal form\<close>

text \<open>
  The text \<^verbatim>\<open>encoding/json\<close> writes for a \<^verbatim>\<open>float64\<close>: the shortest decimal that rounds back to
  the value, the closest of that length, in positional notation (exponents appear only below
  \<open>1e-6\<close> and from \<open>1e21\<close> on, outside the range of the values here). \<open>f64_eq\<close> compares values.
\<close>

definition f64_eq :: "float64 \<Rightarrow> float64 \<Rightarrow> bool" where
  "f64_eq x y \<longleftrightarrow>
     significand x * 2 ^ nat (exponent x - exponent y) =
     significand y * 2 ^ nat (exponent y - exponent x)"

text \<open>The value as a fraction of natural numbers, for a value that is not negative.\<close>

definition f64_num :: "float64 \<Rightarrow> nat" where
  "f64_num x = nat (significand x) * 2 ^ nat (exponent x)"

definition f64_den :: "float64 \<Rightarrow> nat" where
  "f64_den x = 2 ^ nat (- exponent x)"

text \<open>The least \<open>k\<close> with \<open>p < q * 10 ^ k\<close>, as far as the fuel reaches.\<close>

fun dec_exp_up :: "nat \<Rightarrow> nat \<Rightarrow> nat \<Rightarrow> nat" where
  "dec_exp_up 0 p q = 0"
| "dec_exp_up (Suc fuel) p q = (if p < q then 0 else Suc (dec_exp_up fuel p (10 * q)))"

text \<open>Every value below \<open>10 ^ 400\<close> is within the fuel.\<close>

lemma dec_exp_up_enough:
  "p < q * 10 ^ fuel \<Longrightarrow> p < q * 10 ^ dec_exp_up fuel p q"
  by (induction fuel p q rule: dec_exp_up.induct) (auto simp: mult.assoc mult.commute mult.left_commute)

text \<open>How often a fraction below one tenth can be multiplied by ten.\<close>

fun dec_exp_down :: "nat \<Rightarrow> nat \<Rightarrow> nat \<Rightarrow> nat" where
  "dec_exp_down 0 p q = 0"
| "dec_exp_down (Suc fuel) p q = (if 10 * p < q then Suc (dec_exp_down fuel (10 * p) q) else 0)"

text \<open>The position of the decimal point before the first significant digit.\<close>

definition dec_point :: "float64 \<Rightarrow> int" where
  "dec_point x =
     (let p = f64_num x; q = f64_den x
      in if q \<le> p then int (dec_exp_up 400 p q) else - int (dec_exp_down 400 p q))"

definition dec_candidates :: "float64 \<Rightarrow> nat \<Rightarrow> nat list" where
  "dec_candidates x nd =
     (let s = int nd - dec_point x;
          p = f64_num x * 10 ^ nat s; q = f64_den x * 10 ^ nat (- s);
          near = rne_div p q; down = p div q
      in filter (\<lambda>d. f64_eq (f64_div (F64 (int d * 10 ^ nat (- s)) 0) (F64 (10 ^ nat s) 0)) x)
           [near, down, down + 1])"

fun dec_shortest :: "nat \<Rightarrow> nat \<Rightarrow> float64 \<Rightarrow> nat \<times> nat" where
  "dec_shortest 0 nd x = (rne_div (f64_num x) (f64_den x), nd)"
| "dec_shortest (Suc fuel) nd x =
     (case dec_candidates x nd of d # _ \<Rightarrow> (d, nd) | [] \<Rightarrow> dec_shortest fuel (Suc nd) x)"

definition fmt_f64_abs :: "float64 \<Rightarrow> string" where
  "fmt_f64_abs x =
     (if significand x = 0 then ''0''
      else let (d, nd) = dec_shortest 17 1 x; dp = dec_point x;
               frac = nat (int nd - dp); n = d * 10 ^ nat (dp - int nd);
               ds = (if frac = 0 then []
                     else rev (dropWhile (\<lambda>c. c = CHR ''0'') (rev (fmt_0d frac (n mod 10 ^ frac)))))
           in fmt_d (n div 10 ^ frac) @ (if ds = [] then [] else ''.'' @ ds))"

definition fmt_f64 :: "float64 \<Rightarrow> string" where
  "fmt_f64 x =
     (if significand x < 0 then ''-'' @ fmt_f64_abs (F64 (- significand x) (exponent x))
      else fmt_f64_abs x)"

section \<open>Exactness\<close>

lemma bit_len_le: "n < 2 ^ k \<Longrightarrow> bit_len n \<le> k"
proof (induction k arbitrary: n)
  case 0
  then show ?case by (simp add: bit_len.simps)
next
  case (Suc k)
  then have "n div 2 < 2 ^ k" by auto
  with Suc.IH show ?case by (subst bit_len.simps) simp
qed

lemma rne_div_1 [simp]: "rne_div a (Suc 0) = a" "rne_div a 1 = a"
  by (simp_all add: rne_div_def)

lemma rne_div_near:
  assumes "0 < b"
  shows "2 * (b * rne_div a b) \<le> 2 * a + b" and "2 * a \<le> 2 * (b * rne_div a b) + b"
proof -
  define q r where "q = a div b" and "r = a mod b"
  have a: "a = b * q + r" and r: "r < b" using assms by (simp_all add: q_def r_def)
  have d: "rne_div a b = (if b < 2 * r \<or> (2 * r = b \<and> odd q) then q + 1 else q)"
    by (simp add: rne_div_def q_def r_def Let_def)
  show "2 * (b * rne_div a b) \<le> 2 * a + b"
    unfolding d using r by (simp add: a distrib_left)
  show "2 * a \<le> 2 * (b * rne_div a b) + b"
    unfolding d using r by (simp add: a distrib_left)
qed

lemma rne_div_cancel:
  assumes "0 < c"
  shows "rne_div (c * a) (c * b) = rne_div a b"
proof -
  have "c * a div (c * b) = a div b" using assms by simp
  moreover have "c * a mod (c * b) = c * (a mod b)" by (rule mod_mult_mult1)
  moreover have "2 * (c * r) = c * (2 * r)" for r by simp
  moreover have "(c * b < c * r) = (b < r)" "(c * r = c * b) = (r = b)" for r using assms by simp_all
  ultimately show ?thesis by (simp only: rne_div_def Let_def)
qed

lemma f64_of_int_exact:
  assumes "\<bar>n\<bar> < 2 ^ 53"
  shows "f64_of_int n = F64 n 0"
proof -
  have "nat \<bar>n\<bar> < 2 ^ 53" using assms by (simp add: nat_less_iff)
  then have "bit_len (nat \<bar>n\<bar>) \<le> 53" by (rule bit_len_le)
  then have "bit_len (nat \<bar>n\<bar>) - 53 = 0" by simp
  then show ?thesis by (simp only: f64_of_int_def Let_def power_0 rne_div_1) (simp add: sgn_mult_abs)
qed

lemma f64_less_half:
  "f64_less (f64_half (F64 b 0)) (F64 a 0) \<longleftrightarrow> b < 2 * a"
  by (simp add: f64_less_def f64_half_def mult.commute)

end
