(* ===== verification/Json.thy ===== *)
theory Json
  imports GoStd
begin

text \<open>
  The part of \<^verbatim>\<open>encoding/json\<close> the program uses: the string writer with Go's escaping rules,
  compact and indented objects, and a parser for complete documents with Go's string decoding.
  Strings are byte strings in UTF-8.
\<close>

section \<open>UTF-8\<close>

abbreviation code :: "char \<Rightarrow> nat" where "code c \<equiv> of_char c"

definition is_cont :: "char \<Rightarrow> bool" where
  "is_cont c \<longleftrightarrow> 128 \<le> code c \<and> code c \<le> 191"

text \<open>
  The length of the well-formed multi-byte sequence at the head of a string whose first byte is
  not ASCII, zero when there is none (\<^verbatim>\<open>utf8.DecodeRune\<close> then yields the error rune of width 1).
\<close>

definition utf8_len :: "string \<Rightarrow> nat" where
  "utf8_len s =
     (case s of
        a # b # r \<Rightarrow>
          if 194 \<le> code a \<and> code a \<le> 223 then (if is_cont b then 2 else 0)
          else if 224 \<le> code a \<and> code a \<le> 239 then
            (if is_cont b \<and> (code a = 224 \<longrightarrow> 160 \<le> code b) \<and> (code a = 237 \<longrightarrow> code b \<le> 159) \<and>
                r \<noteq> [] \<and> is_cont (hd r) then 3 else 0)
          else if 240 \<le> code a \<and> code a \<le> 244 then
            (if is_cont b \<and> (code a = 240 \<longrightarrow> 144 \<le> code b) \<and> (code a = 244 \<longrightarrow> code b \<le> 143) \<and>
                2 \<le> length r \<and> is_cont (r ! 0) \<and> is_cont (r ! 1) then 4 else 0)
          else 0
      | _ \<Rightarrow> 0)"

definition utf8_encode :: "nat \<Rightarrow> string" where
  "utf8_encode n =
     (if n < 128 then [char_of n]
      else if n < 2048 then [char_of (192 + n div 64), char_of (128 + n mod 64)]
      else if n < 65536 then
        [char_of (224 + n div 4096), char_of (128 + n div 64 mod 64), char_of (128 + n mod 64)]
      else [char_of (240 + n div 262144), char_of (128 + n div 4096 mod 64),
            char_of (128 + n div 64 mod 64), char_of (128 + n mod 64)])"

section \<open>Writing\<close>

definition quote :: char where "quote = CHR 0x22"
definition backslash :: char where "backslash = CHR 0x5C"

definition escape_ascii :: "bool \<Rightarrow> char \<Rightarrow> string" where
  "escape_ascii html c =
     (if c = backslash \<or> c = quote then [backslash, c]
      else if code c = 8 then [backslash, CHR ''b'']
      else if code c = 12 then [backslash, CHR ''f'']
      else if code c = 10 then [backslash, CHR ''n'']
      else if code c = 13 then [backslash, CHR ''r'']
      else if code c = 9 then [backslash, CHR ''t'']
      else if code c < 32 \<or> (html \<and> c \<in> {CHR ''<'', CHR ''>'', CHR ''&''})
      then [backslash] @ ''u00'' @ [digit_char (code c div 16), digit_char (code c mod 16)]
      else [c])"

fun json_escape :: "bool \<Rightarrow> string \<Rightarrow> string" where
  "json_escape html [] = []"
| "json_escape html (c # s) =
     (if code c < 128 then escape_ascii html c @ json_escape html s
      else if utf8_len (c # s) = 0 then [backslash] @ ''ufffd'' @ json_escape html s
      else let n = utf8_len (c # s); r = take n (c # s) in
        (if r = map char_of [226 :: nat, 128, 168] then [backslash] @ ''u2028''
         else if r = map char_of [226 :: nat, 128, 169] then [backslash] @ ''u2029''
         else r) @ json_escape html (drop (n - 1) s))"

definition json_string :: "bool \<Rightarrow> string \<Rightarrow> string" where
  "json_string html s = quote # json_escape html s @ [quote]"

text \<open>An object from its rendered members, compact or indented by two spaces at depth one.\<close>

definition json_object :: "(string \<times> string) list \<Rightarrow> string" where
  "json_object ms = ''{'' @ Join (map (\<lambda>(k, v). json_string False k @ '':'' @ v) ms) '','' @ ''}''"

definition json_object_indent :: "(string \<times> string) list \<Rightarrow> string" where
  "json_object_indent ms =
     (if ms = [] then ''{}''
      else let nl = [char_of (10 :: nat)] in
        ''{'' @ nl @ Join (map (\<lambda>(k, v). ''  '' @ json_string True k @ '': '' @ v) ms) ('','' @ nl) @ nl @ ''}'')"

section \<open>Reading\<close>

definition getu4 :: "string \<Rightarrow> nat option" where
  "getu4 s =
     (case s of
        a # b # c # d # _ \<Rightarrow>
          (case (hex_value a, hex_value b, hex_value c, hex_value d) of
             (Some w, Some x, Some y, Some z) \<Rightarrow> Some (4096 * w + 256 * x + 16 * y + z)
           | _ \<Rightarrow> None)
      | _ \<Rightarrow> None)"

definition replacement :: string where
  "replacement = map char_of [239 :: nat, 191, 189]"

definition is_high_surrogate :: "nat \<Rightarrow> bool" where
  "is_high_surrogate n \<longleftrightarrow> 55296 \<le> n \<and> n < 56320"

definition is_low_surrogate :: "nat \<Rightarrow> bool" where
  "is_low_surrogate n \<longleftrightarrow> 56320 \<le> n \<and> n < 57344"

text \<open>The rune after \<^verbatim>\<open>\u\<close>, with the rest: a surrogate needs its partner.\<close>

definition read_u :: "string \<Rightarrow> (string \<times> string) option" where
  "read_u s =
     (case getu4 s of None \<Rightarrow> None
      | Some n \<Rightarrow>
          let r = drop 4 s in
          if is_high_surrogate n then
            (case (if take 2 r = [backslash, CHR ''u''] then getu4 (drop 2 r) else None) of
               Some m \<Rightarrow>
                 if is_low_surrogate m
                 then Some (utf8_encode (65536 + (n - 55296) * 1024 + (m - 56320)), drop 6 r)
                 else Some (replacement, r)
             | None \<Rightarrow> Some (replacement, r))
          else if is_low_surrogate n then Some (replacement, r)
          else Some (utf8_encode n, r))"

definition simple_escape :: "char \<Rightarrow> char option" where
  "simple_escape e =
     (if e = quote \<or> e = backslash \<or> e = CHR ''/'' then Some e
      else if e = CHR ''b'' then Some (char_of (8 :: nat))
      else if e = CHR ''f'' then Some (char_of (12 :: nat))
      else if e = CHR ''n'' then Some (char_of (10 :: nat))
      else if e = CHR ''r'' then Some (char_of (13 :: nat))
      else if e = CHR ''t'' then Some (char_of (9 :: nat))
      else None)"

text \<open>One step of the body of a string literal: what it adds, and the rest.\<close>

definition read_char :: "string \<Rightarrow> (string \<times> string) option" where
  "read_char s =
     (case s of
        [] \<Rightarrow> None
      | c # r \<Rightarrow>
          if c = backslash then
            (case r of
               [] \<Rightarrow> None
             | e # r1 \<Rightarrow>
                 if e = CHR ''u'' then read_u r1
                 else (case simple_escape e of None \<Rightarrow> None | Some d \<Rightarrow> Some ([d], r1)))
          else if code c < 32 then None
          else if code c < 128 then Some ([c], r)
          else if utf8_len s = 0 then Some (replacement, r)
          else Some (take (utf8_len s) s, drop (utf8_len s) s))"

lemma read_u_shorter: "read_u s = Some (d, r) \<Longrightarrow> length r \<le> length s"
  by (auto simp: read_u_def Let_def split: option.splits if_splits)

lemma utf8_len_pos: "utf8_len s \<noteq> 0 \<Longrightarrow> s \<noteq> []"
  by (auto simp: utf8_len_def)

lemma read_char_shorter:
  assumes "read_char s = Some (d, r)"
  shows "length r < length s"
proof (cases s)
  case Nil
  with assms show ?thesis by (simp add: read_char_def)
next
  case (Cons c t)
  with assms show ?thesis
    by (auto simp: read_char_def split: list.splits if_splits option.splits dest!: read_u_shorter)
qed

function read_string :: "string \<Rightarrow> (string \<times> string) option" where
  "read_string s =
     (if s \<noteq> [] \<and> hd s = quote then Some ([], tl s)
      else case read_char s of
        None \<Rightarrow> None
      | Some (d, r) \<Rightarrow> map_option (\<lambda>(t, rest). (d @ t, rest)) (read_string r))"
  by auto
termination
  by (relation "measure length") (auto dest: read_char_shorter)

declare read_string.simps [simp del]

datatype json =
    JNull
  | JBool bool
  | JNum string
  | JStr string
  | JArr "json list"
  | JObj "(string \<times> json) list"

definition is_ws :: "char \<Rightarrow> bool" where
  "is_ws c \<longleftrightarrow> code c \<in> {9, 10, 13, 32}"

abbreviation skip_ws :: "string \<Rightarrow> string" where
  "skip_ws s \<equiv> dropWhile is_ws s"

definition is_digit :: "char \<Rightarrow> bool" where
  "is_digit c \<longleftrightarrow> 48 \<le> code c \<and> code c \<le> 57"

definition read_number :: "string \<Rightarrow> (string \<times> string) option" where
  "read_number s =
     (let (sign, s1) = (if take 1 s = ''-'' then (''-'', drop 1 s) else ([], s));
          ip = (if take 1 s1 = ''0'' then ''0'' else takeWhile is_digit s1);
          s2 = drop (length ip) s1;
          fp = (if take 1 s2 = ''.'' then takeWhile is_digit (drop 1 s2) else []);
          s3 = (if take 1 s2 = ''.'' then drop (1 + length fp) s2 else s2);
          has_e = (take 1 s3 = ''e'' \<or> take 1 s3 = ''E'');
          es = (if take 1 (drop 1 s3) = ''+'' \<or> take 1 (drop 1 s3) = ''-'' then 2 else 1);
          ep = (if has_e then takeWhile is_digit (drop es s3) else []);
          s4 = (if has_e then drop (es + length ep) s3 else s3)
      in if ip = [] \<or> (take 1 s2 = ''.'' \<and> fp = []) \<or> (has_e \<and> ep = []) then None
         else Some (take (length s - length s4) s, s4))"

fun read_value :: "nat \<Rightarrow> string \<Rightarrow> (json \<times> string) option"
  and read_members :: "nat \<Rightarrow> string \<Rightarrow> ((string \<times> json) list \<times> string) option"
  and read_elements :: "nat \<Rightarrow> string \<Rightarrow> (json list \<times> string) option" where
  "read_value 0 s = None"
| "read_value (Suc n) s =
     (case skip_ws s of
        [] \<Rightarrow> None
      | c # r \<Rightarrow>
          if c = CHR ''{'' then
            (if take 1 (skip_ws r) = ''}'' then Some (JObj [], drop 1 (skip_ws r))
             else map_option (\<lambda>(ms, t). (JObj ms, t)) (read_members n r))
          else if c = CHR ''['' then
            (if take 1 (skip_ws r) = '']'' then Some (JArr [], drop 1 (skip_ws r))
             else map_option (\<lambda>(vs, t). (JArr vs, t)) (read_elements n r))
          else if c = quote then map_option (\<lambda>(v, t). (JStr v, t)) (read_string r)
          else if take 4 (c # r) = ''true'' then Some (JBool True, drop 4 (c # r))
          else if take 5 (c # r) = ''false'' then Some (JBool False, drop 5 (c # r))
          else if take 4 (c # r) = ''null'' then Some (JNull, drop 4 (c # r))
          else map_option (\<lambda>(v, t). (JNum v, t)) (read_number (c # r)))"
| "read_members 0 s = None"
| "read_members (Suc n) s =
     (let s1 = skip_ws s in
      if take 1 s1 \<noteq> [quote] then None
      else case read_string (drop 1 s1) of
        None \<Rightarrow> None
      | Some (k, s2) \<Rightarrow>
          if take 1 (skip_ws s2) \<noteq> '':'' then None
          else case read_value n (drop 1 (skip_ws s2)) of
            None \<Rightarrow> None
          | Some (v, s3) \<Rightarrow>
              (let s4 = skip_ws s3 in
               if take 1 s4 = '','' then map_option (\<lambda>(ms, t). ((k, v) # ms, t)) (read_members n (drop 1 s4))
               else if take 1 s4 = ''}'' then Some ([(k, v)], drop 1 s4)
               else None))"
| "read_elements 0 s = None"
| "read_elements (Suc n) s =
     (case read_value n s of
        None \<Rightarrow> None
      | Some (v, s1) \<Rightarrow>
          (let s2 = skip_ws s1 in
           if take 1 s2 = '','' then map_option (\<lambda>(vs, t). (v # vs, t)) (read_elements n (drop 1 s2))
           else if take 1 s2 = '']'' then Some ([v], drop 1 s2)
           else None))"

text \<open>
  Every nested call follows at least one consumed byte, or is the one value under a list of
  elements, so twice the length of the document is more than enough fuel; the next section proves it.
\<close>

definition json_parse :: "string \<Rightarrow> json option" where
  "json_parse s =
     (case read_value (2 * length s + 2) s of
        Some (v, rest) \<Rightarrow> if skip_ws rest = [] then Some v else None
      | None \<Rightarrow> None)"

section \<open>The fuel is enough\<close>

text \<open>What is left after reading is shorter.\<close>

lemma read_string_shorter: "read_string s = Some (t, r) \<Longrightarrow> length r < length s"
proof (induction s arbitrary: t r rule: read_string.induct)
  case (1 s)
  show ?case
  proof (cases "s \<noteq> [] \<and> hd s = quote")
    case True
    then show ?thesis using 1(2) by (subst (asm) read_string.simps) auto
  next
    case False
    then obtain d s1 t1 where "read_char s = Some (d, s1)" "read_string s1 = Some (t1, r)"
      using 1(2) by (subst (asm) read_string.simps) (auto split: option.splits)
    then show ?thesis using 1(1) [OF False] read_char_shorter by fastforce
  qed
qed

lemma skip_ws_le: "length (skip_ws s) \<le> length s"
  by (rule length_dropWhile_le)

lemma read_number_shorter:
  assumes "read_number s = Some (v, r)"
  shows "length r < length s"
proof -
  define s1 where "s1 = (if take 1 s = ''-'' then drop 1 s else s)"
  define ip where "ip = (if take 1 s1 = ''0'' then ''0'' else takeWhile is_digit s1)"
  have le: "length (if b then drop k s' else s') \<le> length s'" for b k and s' :: string by simp
  have split: "(if take 1 s = ''-'' then (''-'', drop 1 s) else ([], s)) = (if take 1 s = ''-'' then ''-'' else [], s1)"
    by (simp add: s1_def)
  have outer: "(if P then None else Some (x, y)) = Some (v, r) \<Longrightarrow> \<not> P \<and> r = y" for P x y by (simp split: if_splits)
  note parts = outer [OF assms [unfolded read_number_def split Let_def case_prod_conv, folded ip_def]]
  have "ip \<noteq> []" using parts [THEN conjunct1] by blast
  moreover have "length r \<le> length (drop (length ip) s1)"
    unfolding parts [THEN conjunct2] by (rule order_trans [OF le le])
  moreover have "length ip \<le> length s1" using length_takeWhile_le [of is_digit s1] by (cases s1) (auto simp: ip_def)
  moreover have "length s1 \<le> length s" by (simp add: s1_def)
  ultimately show ?thesis by (cases ip) auto
qed


lemma read_members_SucE:
  assumes "read_members (Suc n) s = Some (ms, r)"
  obtains k s2 v s3 where "read_string (drop 1 (skip_ws s)) = Some (k, s2)"
    and "read_value n (drop 1 (skip_ws s2)) = Some (v, s3)"
    and "r = drop 1 (skip_ws s3) \<or> (\<exists>ms'. read_members n (drop 1 (skip_ws s3)) = Some (ms', r))"
  using assms by (auto simp: Let_def split: if_splits option.splits)

lemma read_elements_SucE:
  assumes "read_elements (Suc n) s = Some (vs, r)"
  obtains v s1 where "read_value n s = Some (v, s1)"
    and "r = drop 1 (skip_ws s1) \<or> (\<exists>vs'. read_elements n (drop 1 (skip_ws s1)) = Some (vs', r))"
  using assms by (auto simp: Let_def split: if_splits option.splits)

lemma drop_ws_le: "length (drop k (skip_ws s)) \<le> length s"
  using skip_ws_le [of s] by simp

lemma read_value_SucE:
  assumes "read_value (Suc n) s = Some (v, r)"
  obtains c t where "skip_ws s = c # t"
    and "length r \<le> length t \<or> (\<exists>ms. read_members n t = Some (ms, r)) \<or> (\<exists>vs. read_elements n t = Some (vs, r))"
proof -
  obtain c t where s: "skip_ws s = c # t" using assms by (auto split: list.splits)
  note u = assms [unfolded read_value.simps s list.case]
  have lit: "length r \<le> length t" if "Some (x, drop (Suc k) (c # t)) = Some (v, r)" for x k
    using that by auto
  consider "c = CHR ''{''" | "c = CHR ''[''" | "c = quote" "c \<noteq> CHR ''{''" "c \<noteq> CHR ''[''"
    | "c \<noteq> quote" "c \<noteq> CHR ''{''" "c \<noteq> CHR ''[''" by blast
  then have "length r \<le> length t \<or> (\<exists>ms. read_members n t = Some (ms, r)) \<or> (\<exists>vs. read_elements n t = Some (vs, r))"
  proof cases
    case 1
    then show ?thesis using u drop_ws_le [of 1 t] by (auto split: if_splits)
  next
    case 2
    then show ?thesis using u drop_ws_le [of 1 t] by (auto split: if_splits)
  next
    case 3
    then show ?thesis using u read_string_shorter [of t] by auto
  next
    case 4
    have "length r \<le> length t" if "map_option (\<lambda>(v, t). (JNum v, t)) (read_number (c # t)) = Some (v, r)"
      using that read_number_shorter [of "c # t"] by (auto simp: less_Suc_eq_le)
    then show ?thesis using u 4 lit [of _ 3] lit [of _ 4]
      by (simp only: if_False) (auto simp: numeral_eq_Suc simp del: drop_Suc_Cons split: if_splits)
  qed
  then show ?thesis using s that by blast
qed

lemma read_shorter:
  "(\<forall>s v r. read_value n s = Some (v, r) \<longrightarrow> length r < length s) \<and>
   (\<forall>s ms r. read_members n s = Some (ms, r) \<longrightarrow> length r < length s) \<and>
   (\<forall>s vs r. read_elements n s = Some (vs, r) \<longrightarrow> length r < length s)"
proof (induction n)
  case 0
  show ?case by simp
next
  case (Suc n)
  have "length r < length s" if step: "read_value (Suc n) s = Some (v, r)" for s v r
  proof -
    obtain c t where "skip_ws s = c # t"
      and "length r \<le> length t \<or> (\<exists>ms. read_members n t = Some (ms, r)) \<or> (\<exists>vs. read_elements n t = Some (vs, r))"
      by (rule read_value_SucE [OF step])
    then show ?thesis using Suc.IH skip_ws_le [of s] by fastforce
  qed
  moreover have "length r < length s" if step: "read_members (Suc n) s = Some (ms, r)" for s ms r
  proof -
    obtain k s2 v s3 where str: "read_string (drop 1 (skip_ws s)) = Some (k, s2)"
      and val: "read_value n (drop 1 (skip_ws s2)) = Some (v, s3)"
      and r: "r = drop 1 (skip_ws s3) \<or> (\<exists>ms'. read_members n (drop 1 (skip_ws s3)) = Some (ms', r))"
      by (rule read_members_SucE [OF step])
    have "length s2 < length s" using read_string_shorter [OF str] drop_ws_le [of 1 s] by simp
    moreover have "length s3 < length s2" using Suc.IH val drop_ws_le [of 1 s2] by fastforce
    moreover have "length r \<le> length s3" using r Suc.IH drop_ws_le [of 1 s3] by fastforce
    ultimately show ?thesis by simp
  qed
  moreover have "length r < length s" if step: "read_elements (Suc n) s = Some (vs, r)" for s vs r
  proof -
    obtain v s1 where val: "read_value n s = Some (v, s1)"
      and r: "r = drop 1 (skip_ws s1) \<or> (\<exists>vs'. read_elements n (drop 1 (skip_ws s1)) = Some (vs', r))"
      by (rule read_elements_SucE [OF step])
    have "length s1 < length s" using Suc.IH val by blast
    moreover have "length r \<le> length s1" using r Suc.IH drop_ws_le [of 1 s1] by fastforce
    ultimately show ?thesis by simp
  qed
  ultimately show ?case by blast
qed

text \<open>More fuel than twice the length of the document changes nothing.\<close>

definition fuel_ok :: "nat \<Rightarrow> bool" where
  "fuel_ok n \<longleftrightarrow>
     (\<forall>s. 2 * length s + 1 \<le> n \<longrightarrow> read_value (Suc n) s = read_value n s) \<and>
     (\<forall>s. 2 * length s + 2 \<le> n \<longrightarrow> read_members (Suc n) s = read_members n s) \<and>
     (\<forall>s. 2 * length s + 2 \<le> n \<longrightarrow> read_elements (Suc n) s = read_elements n s)"

lemma read_value_fuel_Suc:
  assumes "fuel_ok n" and "2 * length s \<le> n"
  shows "read_value (Suc (Suc n)) s = read_value (Suc n) s"
proof (cases "skip_ws s")
  case (Cons c t)
  then have "2 * length t + 2 \<le> n" using assms(2) skip_ws_le [of s] by simp
  then have "read_members (Suc n) t = read_members n t" "read_elements (Suc n) t = read_elements n t"
    using assms(1) by (simp_all add: fuel_ok_def)
  then show ?thesis unfolding read_value.simps Cons list.case by (simp only:)
next
  case Nil
  show ?thesis unfolding read_value.simps Nil list.case ..
qed

lemma read_members_fuel_Suc:
  assumes "fuel_ok n" and "2 * length s + 1 \<le> n"
  shows "read_members (Suc (Suc n)) s = read_members (Suc n) s"
proof (cases "read_string (drop 1 (skip_ws s))")
  case (Some x)
  obtain k s2 where x: "x = (k, s2)" by fastforce
  have s2: "length (drop 1 (skip_ws s2)) < length s"
    using read_string_shorter [OF Some [unfolded x]] drop_ws_le [of 1 s] drop_ws_le [of 1 s2] by simp
  then have val: "read_value (Suc n) (drop 1 (skip_ws s2)) = read_value n (drop 1 (skip_ws s2))"
    using assms by (simp add: fuel_ok_def)
  have "read_members (Suc n) (drop 1 (skip_ws s3)) = read_members n (drop 1 (skip_ws s3))"
    if "read_value n (drop 1 (skip_ws s2)) = Some (v, s3)" for v s3
  proof -
    have "length s3 < length (drop 1 (skip_ws s2))" using read_shorter that by blast
    then show ?thesis using assms s2 drop_ws_le [of 1 s3] by (simp add: fuel_ok_def)
  qed
  then show ?thesis unfolding read_members.simps Let_def Some x option.case prod.case val by (auto split: option.splits)
qed (simp add: Let_def)

lemma read_elements_fuel_Suc:
  assumes "fuel_ok n" and "2 * length s + 1 \<le> n"
  shows "read_elements (Suc (Suc n)) s = read_elements (Suc n) s"
proof -
  have val: "read_value (Suc n) s = read_value n s" using assms by (simp add: fuel_ok_def)
  have "read_elements (Suc n) (drop 1 (skip_ws s1)) = read_elements n (drop 1 (skip_ws s1))"
    if "read_value n s = Some (v, s1)" for v s1
  proof -
    have "length s1 < length s" using read_shorter that by blast
    then show ?thesis using assms drop_ws_le [of 1 s1] by (simp add: fuel_ok_def)
  qed
  then show ?thesis unfolding read_elements.simps Let_def val by (auto split: option.splits)
qed

lemma fuel_ok_all: "fuel_ok n"
proof (induction n)
  case 0
  show ?case by (simp add: fuel_ok_def)
next
  case (Suc n)
  then show ?case
    using read_value_fuel_Suc [OF Suc] read_members_fuel_Suc [OF Suc] read_elements_fuel_Suc [OF Suc]
    by (simp add: fuel_ok_def del: read_value.simps read_members.simps read_elements.simps)
qed

lemma read_value_fuel:
  assumes "2 * length s + 1 \<le> n" and "n \<le> m"
  shows "read_value m s = read_value n s"
  using assms(2)
proof (induction m rule: dec_induct)
  case (step m)
  then show ?case using fuel_ok_all [of m] assms(1) by (simp add: fuel_ok_def)
qed simp

lemma json_parse_fuel:
  "2 * length s + 1 \<le> n \<Longrightarrow>
   json_parse s = (case read_value n s of Some (v, rest) \<Rightarrow> if skip_ws rest = [] then Some v else None | None \<Rightarrow> None)"
  using read_value_fuel [of s "2 * length s + 1" n] read_value_fuel [of s "2 * length s + 1" "2 * length s + 2"]
  by (simp add: json_parse_def)

section \<open>A string read back\<close>

definition ascii :: "string \<Rightarrow> bool" where
  "ascii s \<longleftrightarrow> (\<forall>c \<in> set s. code c < 128)"

lemma ascii_simps [simp]: "ascii []" "ascii (c # s) \<longleftrightarrow> code c < 128 \<and> ascii s"
  by (auto simp: ascii_def)

lemma read_string_quote: "read_string (quote # r) = Some ([], r)"
  by (simp add: read_string.simps)

lemma quote_not_backslash [simp]: "quote \<noteq> backslash" "backslash \<noteq> quote"
  by (simp_all add: quote_def backslash_def)

lemma getu4_small:
  assumes "n < 256"
  shows "getu4 (''00'' @ digit_char (n div 16) # digit_char (n mod 16) # r) = Some n"
proof -
  have "hex_value (CHR ''0'') = Some 0" by (simp add: hex_value_def)
  then show ?thesis using assms by (simp add: getu4_def hex_value_digit_char)
qed

lemma read_char_simple:
  "simple_escape e = Some d \<Longrightarrow> e \<noteq> CHR ''u'' \<Longrightarrow> read_char (backslash # e # r) = Some ([d], r)"
  by (simp add: read_char_def)

lemma read_char_plain:
  "c \<noteq> backslash \<Longrightarrow> 32 \<le> code c \<Longrightarrow> code c < 128 \<Longrightarrow> read_char (c # r) = Some ([c], r)"
  by (simp add: read_char_def)

lemma read_char_u00:
  assumes "code c < 128"
  shows "read_char ([backslash] @ ''u00'' @ [digit_char (code c div 16), digit_char (code c mod 16)] @ r) =
     Some ([c], r)"
proof -
  have "getu4 (CHR ''0'' # CHR ''0'' # digit_char (code c div 16) # digit_char (code c mod 16) # r) = Some (code c)"
    using getu4_small [of "code c" r] assms by simp
  then have "read_u (CHR ''0'' # CHR ''0'' # digit_char (code c div 16) # digit_char (code c mod 16) # r) =
      Some ([c], r)"
    using assms by (simp add: read_u_def is_high_surrogate_def is_low_surrogate_def utf8_encode_def)
  then show ?thesis by (simp add: read_char_def)
qed

lemma char_eq_code: "c = char_of n \<longleftrightarrow> code c = n" if "n < 256" for n :: nat
  using that by (auto simp: take_bit_nat_eq_self of_char_of)

lemma simple_escapes:
  "simple_escape backslash = Some backslash" "simple_escape quote = Some quote"
  "simple_escape (CHR ''b'') = Some (char_of (8 :: nat))" "simple_escape (CHR ''f'') = Some (char_of (12 :: nat))"
  "simple_escape (CHR ''n'') = Some (char_of (10 :: nat))" "simple_escape (CHR ''r'') = Some (char_of (13 :: nat))"
  "simple_escape (CHR ''t'') = Some (char_of (9 :: nat))"
  "backslash \<noteq> CHR ''u''" "quote \<noteq> CHR ''u''"
  by (simp_all add: simple_escape_def quote_def backslash_def char_of_eq_iff)

lemma read_char_escape:
  assumes "code c < 128"
  shows "read_char (escape_ascii html c @ r) = Some ([c], r)"
proof (cases "c = backslash \<or> c = quote \<or> code c \<in> {8, 9, 10, 12, 13}")
  case True
  then show ?thesis
    by (auto simp: escape_ascii_def simple_escapes read_char_simple char_eq_code [symmetric])
next
  case False
  let ?u = "code c < 32 \<or> (html \<and> c \<in> {CHR ''<'', CHR ''>'', CHR ''&''})"
  have e: "escape_ascii html c = (if ?u
      then [backslash] @ ''u00'' @ [digit_char (code c div 16), digit_char (code c mod 16)] else [c])"
    using False by (simp add: escape_ascii_def)
  show ?thesis
  proof (cases ?u)
    case True
    then show ?thesis using read_char_u00 [OF assms, of r] by (simp only: e if_True append_assoc)
  next
    case f: False
    then have "escape_ascii html c = [c]" by (simp only: e if_False)
    then show ?thesis using read_char_plain [of c r] False f assms by simp
  qed
qed

lemma escape_ascii_head: "escape_ascii html c = d # r \<Longrightarrow> d \<noteq> quote"
  by (auto simp: escape_ascii_def split: if_splits)

lemma escape_ascii_nonempty: "escape_ascii html c \<noteq> []"
  by (simp add: escape_ascii_def)

lemma read_string_escape:
  "ascii s \<Longrightarrow> read_string (json_escape html s @ quote # r) = Some (s, r)"
proof (induction s)
  case Nil
  then show ?case by (simp add: read_string_quote)
next
  case (Cons c s)
  obtain d t where e: "escape_ascii html c = d # t"
    using escape_ascii_nonempty by (cases "escape_ascii html c") auto
  have "read_char (escape_ascii html c @ json_escape html s @ quote # r) = Some ([c], json_escape html s @ quote # r)"
    using Cons.prems by (intro read_char_escape) simp
  then show ?case
    using Cons escape_ascii_head [OF e]
    by (subst read_string.simps) (simp add: e)
qed

end
