(* ===== verification/Logging.thy ===== *)
theory Logging
  imports GoStd
begin

text \<open>
  The leveled logger (\<^verbatim>\<open>internal/logging/logging.go\<close>): levels as Go integers with the default
  branches of their switches, terminal detection, the colour switch, the line format, the level
  gate and the parser of level names. The writer collects what was written to it. The civil time
  that \<^verbatim>\<open>time.Now()\<close> returns and the message that \<^verbatim>\<open>fmt.Sprintf\<close> builds from the caller's
  format and arguments are arguments.
\<close>

section \<open>Levels\<close>

datatype Level = Level int

definition LevelError :: Level where [simp]: "LevelError = Level 0"
definition LevelWarn :: Level where [simp]: "LevelWarn = Level 1"
definition LevelInfo :: Level where [simp]: "LevelInfo = Level 2"
definition LevelDebug :: Level where [simp]: "LevelDebug = Level 3"
definition LevelTrace :: Level where [simp]: "LevelTrace = Level 4"

instantiation Level :: linorder
begin

definition less_eq_Level :: "Level \<Rightarrow> Level \<Rightarrow> bool" where
  "less_eq_Level a b = (case (a, b) of (Level x, Level y) \<Rightarrow> x \<le> y)"

definition less_Level :: "Level \<Rightarrow> Level \<Rightarrow> bool" where
  "less_Level a b = (case (a, b) of (Level x, Level y) \<Rightarrow> x < y)"

instance
  by intro_classes (auto simp: less_eq_Level_def less_Level_def split: Level.splits)

end

lemma Level_le [simp]: "Level a \<le> Level b \<longleftrightarrow> a \<le> b"
  by (simp add: less_eq_Level_def)

lemma Level_less [simp]: "Level a < Level b \<longleftrightarrow> a < b"
  by (simp add: less_Level_def)

definition Level_String :: "Level \<Rightarrow> string" where
  "Level_String l =
     (if l = LevelError then ''ERROR''
      else if l = LevelWarn then ''WARN''
      else if l = LevelInfo then ''INFO''
      else if l = LevelDebug then ''DEBUG''
      else if l = LevelTrace then ''TRACE''
      else ''UNKNOWN'')"

definition esc :: char where "esc = char_of (27 :: nat)"

definition colorReset :: string where "colorReset = esc # ''[0m''"
definition colorRed :: string where "colorRed = esc # ''[31m''"
definition colorYellow :: string where "colorYellow = esc # ''[33m''"
definition colorGreen :: string where "colorGreen = esc # ''[32m''"
definition colorCyan :: string where "colorCyan = esc # ''[36m''"
definition colorGray :: string where "colorGray = esc # ''[90m''"
definition colorBold :: string where "colorBold = esc # ''[1m''"

section \<open>Clock and terminal\<close>

text \<open>Local civil time, and the layout directives of \<^verbatim>\<open>time.Format\<close> that the logger's layout uses.\<close>

record civil_time =
  year :: nat
  month :: nat
  day :: nat
  hour :: nat
  minute :: nat
  second :: nat

fun Format :: "civil_time \<Rightarrow> string \<Rightarrow> string" where
  "Format now [] = []"
| "Format now (c # rest) =
     (if take 4 (c # rest) = ''2006'' then fmt_0d 4 (year now) @ Format now (drop 3 rest)
      else if take 2 (c # rest) = ''01'' then fmt_0d 2 (month now) @ Format now (drop 1 rest)
      else if take 2 (c # rest) = ''02'' then fmt_0d 2 (day now) @ Format now (drop 1 rest)
      else if take 2 (c # rest) = ''15'' then fmt_0d 2 (hour now) @ Format now (drop 1 rest)
      else if take 2 (c # rest) = ''04'' then fmt_0d 2 (minute now) @ Format now (drop 1 rest)
      else if take 2 (c # rest) = ''05'' then fmt_0d 2 (second now) @ Format now (drop 1 rest)
      else c # Format now rest)"

text \<open>
  An \<^verbatim>\<open>*os.File\<close> may be nil; its \<^verbatim>\<open>Stat\<close> gives the mode bits or fails. The character-device
  bit is bit 21 of Go's \<^verbatim>\<open>os.FileMode\<close>.
\<close>

record os_file =
  f_stat :: "uint32 option"

definition ModeCharDevice :: uint32 where "ModeCharDevice = push_bit 21 1"

definition isTTY :: "os_file option \<Rightarrow> bool" where
  "isTTY f = (case f of None \<Rightarrow> False
     | Some h \<Rightarrow> (case f_stat h of None \<Rightarrow> False
         | Some m \<Rightarrow> m AND ModeCharDevice \<noteq> 0))"

text \<open>An \<^verbatim>\<open>io.Writer\<close>: an operating-system file or another writer, with the text it received.\<close>

datatype Writer = FileWriter "os_file option" string | OtherWriter string

fun written :: "Writer \<Rightarrow> string" where
  "written (FileWriter f s) = s"
| "written (OtherWriter s) = s"

fun Fprint :: "Writer \<Rightarrow> string \<Rightarrow> Writer" where
  "Fprint (FileWriter f s) t = FileWriter f (s @ t)"
| "Fprint (OtherWriter s) t = OtherWriter (s @ t)"

lemma written_Fprint [simp]: "written (Fprint w t) = written w @ t"
  by (cases w) simp_all

section \<open>The logger\<close>

record Logger =
  level :: Level
  out_writer :: Writer
  useColor :: bool
  timestamp :: string

definition NewLogger :: "os_file option \<Rightarrow> Level \<Rightarrow> Logger" where
  "NewLogger stdout l =
     \<lparr>level = l, out_writer = FileWriter stdout [], useColor = isTTY stdout,
      timestamp = ''2006-01-02 15:04:05''\<rparr>"

definition SetOutput :: "Logger \<Rightarrow> Writer \<Rightarrow> Logger" where
  "SetOutput l w =
     (let l1 = l\<lparr>out_writer := w\<rparr> in
      case w of FileWriter f s \<Rightarrow> l1\<lparr>useColor := isTTY f\<rparr> | OtherWriter s \<Rightarrow> l1\<lparr>useColor := False\<rparr>)"

definition SetColorEnabled :: "Logger \<Rightarrow> bool \<Rightarrow> Logger" where
  "SetColorEnabled l enabled = l\<lparr>useColor := enabled\<rparr>"

definition SetLevel :: "Logger \<Rightarrow> Level \<Rightarrow> Logger" where
  "SetLevel l lv = l\<lparr>level := lv\<rparr>"

definition GetLevel :: "Logger \<Rightarrow> Level" where
  "GetLevel l = level l"

text \<open>The switch of \<^verbatim>\<open>log\<close>: an unknown level leaves both strings empty.\<close>

definition level_tag :: "Level \<Rightarrow> string \<times> string" where
  "level_tag lv =
     (if lv = LevelError then (''ERROR'', colorRed)
      else if lv = LevelWarn then (''WARN'', colorYellow)
      else if lv = LevelInfo then (''INFO'', colorGreen)
      else if lv = LevelDebug then (''DEBUG'', colorCyan)
      else if lv = LevelTrace then (''TRACE'', colorGray)
      else ([], []))"

definition newline :: char where "newline = char_of (10 :: nat)"

definition log_line :: "Logger \<Rightarrow> civil_time \<Rightarrow> Level \<Rightarrow> string \<Rightarrow> string" where
  "log_line l now lv message =
     (let ts = Format now (timestamp l);
          (levelStr, colorCode) = level_tag lv
      in if useColor l
         then ts @ '' ['' @ colorCode @ levelStr @ colorReset @ '']  '' @ message @ [newline]
         else ts @ '' ['' @ levelStr @ '']  '' @ message @ [newline])"

definition log :: "civil_time \<Rightarrow> Logger \<Rightarrow> Level \<Rightarrow> string \<Rightarrow> Logger" where
  "log now l lv message =
     (if lv > level l then l else l\<lparr>out_writer := Fprint (out_writer l) (log_line l now lv message)\<rparr>)"

definition Error :: "civil_time \<Rightarrow> Logger \<Rightarrow> string \<Rightarrow> Logger" where
  "Error now l message = log now l LevelError message"

definition Warn :: "civil_time \<Rightarrow> Logger \<Rightarrow> string \<Rightarrow> Logger" where
  "Warn now l message = log now l LevelWarn message"

definition Info :: "civil_time \<Rightarrow> Logger \<Rightarrow> string \<Rightarrow> Logger" where
  "Info now l message = log now l LevelInfo message"

definition Debug :: "civil_time \<Rightarrow> Logger \<Rightarrow> string \<Rightarrow> Logger" where
  "Debug now l message = log now l LevelDebug message"

definition Trace :: "civil_time \<Rightarrow> Logger \<Rightarrow> string \<Rightarrow> Logger" where
  "Trace now l message = log now l LevelTrace message"

definition Stats_line :: "Logger \<Rightarrow> civil_time \<Rightarrow> string \<Rightarrow> string" where
  "Stats_line l now message =
     (let ts = Format now (timestamp l) in
      if useColor l
      then ts @ '' ['' @ colorBold @ ''STATS'' @ colorReset @ ''] '' @ message @ [newline]
      else ts @ '' [STATS] '' @ message @ [newline])"

definition Logger_Stats :: "civil_time \<Rightarrow> Logger \<Rightarrow> string \<Rightarrow> Logger" where
  "Logger_Stats now l message = l\<lparr>out_writer := Fprint (out_writer l) (Stats_line l now message)\<rparr>"

text \<open>The second component is the error: the rejected text, or none.\<close>

definition ParseLevel :: "string \<Rightarrow> Level \<times> string option" where
  "ParseLevel s =
     (let t = ToLower (TrimSpace s) in
      if t = ''error'' then (LevelError, None)
      else if t = ''warn'' \<or> t = ''warning'' then (LevelWarn, None)
      else if t = ''info'' then (LevelInfo, None)
      else if t = ''debug'' then (LevelDebug, None)
      else if t = ''trace'' then (LevelTrace, None)
      else (LevelInfo, Some s))"

section \<open>What the logger prints\<close>

text \<open>A run of log calls, each with its clock reading, level and message.\<close>

definition log_run :: "(civil_time \<times> Level \<times> string) list \<Rightarrow> Logger \<Rightarrow> Logger" where
  "log_run calls l = foldl (\<lambda>k (now, lv, m). log now k lv m) l calls"

lemma log_run_Nil [simp]: "log_run [] l = l"
  by (simp add: log_run_def)

lemma log_run_Cons [simp]: "log_run ((now, lv, m) # calls) l = log_run calls (log now l lv m)"
  by (simp add: log_run_def)

lemma log_line_output [simp]: "log_line (l\<lparr>out_writer := w\<rparr>) = log_line l"
  by (simp add: log_line_def fun_eq_iff)


definition level_known :: "Level \<Rightarrow> bool" where
  "level_known l \<longleftrightarrow> l \<in> {LevelError, LevelWarn, LevelInfo, LevelDebug, LevelTrace}"

text \<open>
  \<^verbatim>\<open>ParseLevel\<close> accepts, up to surrounding white space and case, exactly the names that
  \<^verbatim>\<open>String\<close> prints for the five levels and the synonym \<open>warning\<close>, and returns the level whose
  name it is; everything else is an error that names the input and falls back to info.
\<close>

lemma ParseLevel_iff:
  "(ParseLevel s = (l, None) \<longleftrightarrow>
      level_known l \<and>
      (ToLower (TrimSpace s) = ToLower (Level_String l) \<or>
       l = LevelWarn \<and> ToLower (TrimSpace s) = ''warning'')) \<and>
   ((\<exists>l. ParseLevel s = (l, None)) \<or> ParseLevel s = (LevelInfo, Some s))"
proof -
  have names: "ToLower ''ERROR'' = ''error''" "ToLower ''WARN'' = ''warn''" "ToLower ''INFO'' = ''info''"
    "ToLower ''DEBUG'' = ''debug''" "ToLower ''TRACE'' = ''trace''"
    by (simp_all add: ToLower_def to_lower_char_def char_of_eq_iff)
  show ?thesis
    by (auto simp: ParseLevel_def Let_def level_known_def Level_String_def names)
qed

end
