(* ===== verification/Events.thy ===== *)
theory Events
  imports Float64 Json Logging "HOL-Library.Sublist"
begin

text \<open>
  Structured diagnostics (\<^verbatim>\<open>internal/events\<close>): the event payloads and their JSON form, the
  emitter that discards everything, the synchronous JSON-lines writer over an encoder that keeps
  its first write error, and the asynchronous writer: a bounded queue, a background goroutine as a
  step relation, and its shutdown.
\<close>

section \<open>Events (events.go)\<close>

type_synonym EventType = string

definition EventStateChanged :: EventType where "EventStateChanged = ''state_changed''"
definition EventStats :: EventType where "EventStats = ''stats''"
definition EventLatency :: EventType where "EventLatency = ''latency''"
definition EventDiscovery :: EventType where "EventDiscovery = ''discovery''"
definition EventError :: EventType where "EventError = ''error''"

text \<open>The payload types behind \<^verbatim>\<open>interface{}\<close>, fields in the source's order.\<close>

datatype event_data =
    StateChangedData string string
  | StatsData uint64 uint64 uint64 uint64 float64 float64
  | LatencyData float64 bool bool
  | DiscoveryData string
  | ErrorData string

text \<open>An instant as \<^verbatim>\<open>time.Now()\<close> gives it: local civil time, nanoseconds, zone offset in minutes.\<close>

record Time = civil_time +
  nanosecond :: nat
  zone_offset :: int

record Envelope =
  env_Type :: EventType
  env_Timestamp :: Time
  env_Data :: event_data

section \<open>JSON form\<close>

definition json_bool :: "bool \<Rightarrow> string" where
  "json_bool b = (if b then ''true'' else ''false'')"

definition json_uint :: "uint64 \<Rightarrow> string" where
  "json_uint w = fmt_d (unat w)"

fun json_data :: "event_data \<Rightarrow> string" where
  "json_data (StateChangedData st peer) =
     json_object ([(''state'', json_string False st)] @
                  (if peer = [] then [] else [(''peer_addr'', json_string False peer)]))"
| "json_data (StatsData txp txb rxp rxb cur avg) =
     json_object [(''tx_packets'', json_uint txp), (''tx_bytes'', json_uint txb),
                  (''rx_packets'', json_uint rxp), (''rx_bytes'', json_uint rxb),
                  (''rtt_current_ms'', fmt_f64 cur), (''rtt_avg_ms'', fmt_f64 avg)]"
| "json_data (LatencyData rtt spike exceeds) =
     json_object [(''rtt_ms'', fmt_f64 rtt), (''is_spike'', json_bool spike),
                  (''exceeds_threshold'', json_bool exceeds)]"
| "json_data (DiscoveryData mac) = json_object [(''mac'', json_string False mac)]"
| "json_data (ErrorData message) = json_object [(''message'', json_string False message)]"

text \<open>\<^verbatim>\<open>time.Time\<close> in JSON: RFC 3339 with nanoseconds, the fraction without trailing zeros.\<close>

definition rfc3339 :: "Time \<Rightarrow> string" where
  "rfc3339 t =
     (let frac = rev (dropWhile (\<lambda>c. c = CHR ''0'') (rev (fmt_0d 9 (nanosecond t))));
          z = zone_offset t; a = nat \<bar>z\<bar>
      in fmt_0d 4 (year t) @ ''-'' @ fmt_0d 2 (month t) @ ''-'' @ fmt_0d 2 (day t) @ ''T'' @
         fmt_0d 2 (hour t) @ '':'' @ fmt_0d 2 (minute t) @ '':'' @ fmt_0d 2 (second t) @
         (if nanosecond t = 0 then [] else ''.'' @ frac) @
         (if z = 0 then ''Z''
          else (if z < 0 then ''-'' else ''+'') @ fmt_0d 2 (a div 60) @ '':'' @ fmt_0d 2 (a mod 60)))"

text \<open>The line \<^verbatim>\<open>Encode\<close> writes; a year beyond four digits is an encoding error.\<close>

definition json_envelope :: "Envelope \<Rightarrow> string" where
  "json_envelope e =
     json_object [(''type'', json_string False (env_Type e)),
                  (''timestamp'', quote # rfc3339 (env_Timestamp e) @ [quote]),
                  (''data'', json_data (env_Data e))]"

definition Marshal :: "Envelope \<Rightarrow> string option" where
  "Marshal e =
     (if year (env_Timestamp e) > 9999 then None else Some (json_envelope e @ [newline]))"

section \<open>NopEmitter (nop.go)\<close>

definition Nop_Emit :: "EventType \<Rightarrow> event_data \<Rightarrow> unit \<Rightarrow> unit" where
  "Nop_Emit t d s = s"

definition Nop_Close :: "unit \<Rightarrow> unit \<times> bool" where
  "Nop_Close s = (s, True)"

section \<open>JSONLineWriter (jsonline.go)\<close>

text \<open>
  The writer with its encoder: the envelopes whose line was written, in order; whether the encoder
  has seen a write error (it then refuses every further call); and whether the underlying writer
  is an \<^verbatim>\<open>io.Closer\<close> and has been closed.
\<close>

record JSONLineWriter =
  jw_written :: "Envelope list"
  jw_err :: bool
  jw_closer :: bool
  jw_closed :: bool

definition NewJSONLineWriter :: "bool \<Rightarrow> JSONLineWriter" where
  "NewJSONLineWriter closer =
     \<lparr>jw_written = [], jw_err = False, jw_closer = closer, jw_closed = False\<rparr>"

definition Encode :: "bool \<Rightarrow> Envelope \<Rightarrow> JSONLineWriter \<Rightarrow> JSONLineWriter \<times> bool" where
  "Encode write_ok e j =
     (if jw_err j then (j, False)
      else if Marshal e = None then (j, False)
      else if write_ok then (j\<lparr>jw_written := jw_written j @ [e]\<rparr>, True)
      else (j\<lparr>jw_err := True\<rparr>, False))"

definition JSONLine_Emit ::
    "Time \<times> bool \<Rightarrow> EventType \<Rightarrow> event_data \<Rightarrow> JSONLineWriter \<Rightarrow> JSONLineWriter" where
  "JSONLine_Emit nw t d j =
     (case nw of (now, write_ok) \<Rightarrow>
        fst (Encode write_ok \<lparr>env_Type = t, env_Timestamp = now, env_Data = d\<rparr> j))"

text \<open>The flag is the error-free return; closing calls the underlying writer if it can be closed.\<close>

definition JSONLine_Close :: "bool \<Rightarrow> JSONLineWriter \<Rightarrow> JSONLineWriter \<times> bool" where
  "JSONLine_Close close_ok j = (if jw_closer j then (j\<lparr>jw_closed := True\<rparr>, close_ok) else (j, True))"

definition jw_text :: "JSONLineWriter \<Rightarrow> string" where
  "jw_text j = concat (map (\<lambda>e. the (Marshal e)) (jw_written j))"

section \<open>AsyncJSONLineWriter (jsonline.go)\<close>

datatype writer_pc = Selecting | Draining | Stopped

record AsyncJSONLineWriter =
  aw_events :: "Envelope chan"
  aw_done :: bool
  aw_pc :: writer_pc
  aw_w :: JSONLineWriter

definition NewAsyncJSONLineWriter :: "bool \<Rightarrow> AsyncJSONLineWriter" where
  "NewAsyncJSONLineWriter closer =
     \<lparr>aw_events = make_chan 64, aw_done = False, aw_pc = Selecting, aw_w = NewJSONLineWriter closer\<rparr>"

definition Async_Emit ::
    "Time \<Rightarrow> EventType \<Rightarrow> event_data \<Rightarrow> AsyncJSONLineWriter \<Rightarrow> AsyncJSONLineWriter" where
  "Async_Emit now t d a =
     a\<lparr>aw_events :=
         fst (chan_try_send \<lparr>env_Type = t, env_Timestamp = now, env_Data = d\<rparr> (aw_events a))\<rparr>"

text \<open>Receiving one event and emitting it to the inner writer, at the time of the write.\<close>

definition write_one :: "Time \<times> bool \<Rightarrow> AsyncJSONLineWriter \<Rightarrow> AsyncJSONLineWriter option" where
  "write_one nw a =
     (case chan_recv (aw_events a) of
        None \<Rightarrow> None
      | Some (e, ch) \<Rightarrow>
          Some (a\<lparr>aw_events := ch, aw_w := JSONLine_Emit nw (env_Type e) (env_Data e) (aw_w a)\<rparr>))"

text \<open>
  The goroutine: the select takes a queued event or sees the closed channel, in any order when
  both are ready; the drain loop runs while the queue is not empty. The parameter says which
  clock readings and write results the environment can give.
\<close>

inductive writer_step :: "(Time \<times> bool \<Rightarrow> bool) \<Rightarrow> AsyncJSONLineWriter \<Rightarrow> AsyncJSONLineWriter \<Rightarrow> bool"
  for env :: "Time \<times> bool \<Rightarrow> bool" where
  take_event: "aw_pc a = Selecting \<Longrightarrow> env nw \<Longrightarrow> write_one nw a = Some a' \<Longrightarrow> writer_step env a a'"
| see_done: "aw_pc a = Selecting \<Longrightarrow> aw_done a \<Longrightarrow> writer_step env a (a\<lparr>aw_pc := Draining\<rparr>)"
| drain_event: "aw_pc a = Draining \<Longrightarrow> env nw \<Longrightarrow> write_one nw a = Some a' \<Longrightarrow> writer_step env a a'"
| drained: "aw_pc a = Draining \<Longrightarrow> chan_buf (aw_events a) = [] \<Longrightarrow>
     writer_step env a (a\<lparr>aw_pc := Stopped\<rparr>)"

inductive_cases writer_stepE: "writer_step env a a'"

text \<open>\<^verbatim>\<open>Close\<close>: closing a closed channel panics; the wait ends when the goroutine has stopped.\<close>

definition Async_Close_begin :: "AsyncJSONLineWriter \<Rightarrow> (unit, AsyncJSONLineWriter) outcome" where
  "Async_Close_begin a = (if aw_done a then Panic else Ret (a\<lparr>aw_done := True\<rparr>))"

definition Async_Close_end :: "bool \<Rightarrow> AsyncJSONLineWriter \<Rightarrow> (AsyncJSONLineWriter \<times> bool) option" where
  "Async_Close_end close_ok a =
     (if aw_pc a = Stopped
      then (case JSONLine_Close close_ok (aw_w a) of (j, ok) \<Rightarrow> Some (a\<lparr>aw_w := j\<rparr>, ok))
      else None)"

text \<open>
  The whole system with the sequence of events accepted into the queue so far: callers emit, the
  goroutine runs, somebody closes.
\<close>

type_synonym async_sys = "AsyncJSONLineWriter \<times> (EventType \<times> event_data) list"

inductive async_step :: "(Time \<times> bool \<Rightarrow> bool) \<Rightarrow> async_sys \<Rightarrow> async_sys \<Rightarrow> bool"
  for env :: "Time \<times> bool \<Rightarrow> bool" where
  emit: "async_step env (a, acc) (Async_Emit now t d a,
     if length (chan_buf (aw_events a)) < chan_cap (aw_events a) then acc @ [(t, d)] else acc)"
| writer: "writer_step env a a' \<Longrightarrow> async_step env (a, acc) (a', acc)"
| close: "Async_Close_begin a = Ret a' \<Longrightarrow> async_step env (a, acc) (a', acc)"

inductive_cases async_stepE: "async_step env s t"

section \<open>The emitter interface\<close>

text \<open>
  What the bridge relies on: an emission adds its event at the end of what the emitter keeps, or
  is dropped, and never disturbs earlier events. Then whatever arrives is a subsequence of what
  was emitted, in order.
\<close>

locale emitter =
  fixes emit :: "'n \<Rightarrow> EventType \<Rightarrow> event_data \<Rightarrow> 's \<Rightarrow> 's"
    and kept :: "'s \<Rightarrow> (EventType \<times> event_data) list"
  assumes emit_kept: "kept (emit n t d s) = kept s \<or> kept (emit n t d s) = kept s @ [(t, d)]"
begin

definition emit_all :: "('n \<times> EventType \<times> event_data) list \<Rightarrow> 's \<Rightarrow> 's" where
  "emit_all es s = foldl (\<lambda>s (n, t, d). emit n t d s) s es"

lemma emit_all_subseq:
  "\<exists>xs. kept (emit_all es s) = kept s @ xs \<and> subseq xs (map snd es)"
proof (induction es rule: rev_induct)
  case Nil
  then show ?case by (simp add: emit_all_def)
next
  case (snoc e es)
  obtain n t d where e: "e = (n, t, d)" by (cases e) auto
  obtain xs where xs: "kept (emit_all es s) = kept s @ xs" "subseq xs (map snd es)"
    using snoc by blast
  have "emit_all (es @ [e]) s = emit n t d (emit_all es s)" by (simp add: emit_all_def e)
  then consider "kept (emit_all (es @ [e]) s) = kept s @ xs"
    | "kept (emit_all (es @ [e]) s) = kept s @ xs @ [(t, d)]"
    using emit_kept [of n t d "emit_all es s"] xs(1) by auto
  then show ?case
  proof cases
    case 1
    with xs(2) show ?thesis by (intro exI [of _ xs]) (auto intro: subseq_rev_drop_many)
  next
    case 2
    with xs(2) show ?thesis by (intro exI [of _ "xs @ [(t, d)]"]) (simp add: e)
  qed
qed

end

definition event_of :: "Envelope \<Rightarrow> EventType \<times> event_data" where
  "event_of e = (env_Type e, env_Data e)"

interpretation nop_emitter: emitter "\<lambda>n. Nop_Emit" "\<lambda>s. []"
  by unfold_locales simp

interpretation line_emitter: emitter JSONLine_Emit "\<lambda>j. map event_of (jw_written j)"
  by unfold_locales (auto simp: JSONLine_Emit_def Encode_def event_of_def split: prod.splits)

interpretation async_emitter: emitter Async_Emit "\<lambda>a. map event_of (chan_buf (aw_events a))"
  by unfold_locales (auto simp: Async_Emit_def chan_try_send_def event_of_def)

section \<open>Line framing\<close>

text \<open>Text without control characters.\<close>

definition plain :: "string \<Rightarrow> bool" where
  "plain s \<longleftrightarrow> (\<forall>c \<in> set s. 32 \<le> code c)"

named_theorems plain_intros \<open>texts without control characters\<close>

lemma plain_simps [simp]:
  "plain []" "plain (c # s) \<longleftrightarrow> 32 \<le> code c \<and> plain s" "plain (s @ t) \<longleftrightarrow> plain s \<and> plain t"
  by (auto simp: plain_def)

lemma plain_subset: "set t \<subseteq> set s \<Longrightarrow> plain s \<Longrightarrow> plain t"
  by (auto simp: plain_def)

lemma plain_rev [simp]: "plain (rev s) = plain s"
  by (simp add: plain_def)

lemma plain_dropWhile: "plain s \<Longrightarrow> plain (dropWhile p s)"
  by (auto simp: plain_def dest: set_dropWhileD)

lemma plain_no_newline: "plain s \<Longrightarrow> newline \<notin> set s"
  by (auto simp: plain_def newline_def)

lemma plain_Join: "\<forall>x \<in> set xs. plain x \<Longrightarrow> plain sep \<Longrightarrow> plain (Join xs sep)"
  by (induction xs sep rule: Join.induct) auto

lemma digit_char_plain: "d < 16 \<Longrightarrow> 32 \<le> code (digit_char d)"
  by (auto simp: digit_char_def take_bit_nat_eq_self)

lemma fmt_d_plain [simp]: "plain (fmt_d n)"
proof -
  have "d < 10" if "d \<in> set (digits 10 n)" for d using that by (rule digits_less [rotated]) simp
  then show ?thesis by (fastforce simp: plain_def fmt_d_def intro: digit_char_plain)
qed

lemma fmt_0d_plain [simp]: "plain (fmt_0d w n)"
  by (simp add: fmt_0d_def pad_left_def) (simp add: plain_def)

lemma fmt_f64_plain [simp]: "plain (fmt_f64 x)"
  by (auto simp: fmt_f64_def fmt_f64_abs_def Let_def plain_dropWhile split: prod.splits)

lemma escape_ascii_plain: "code c < 128 \<Longrightarrow> plain (escape_ascii html c)"
  by (auto simp: escape_ascii_def quote_def backslash_def digit_char_plain)

lemma utf8_take_plain:
  assumes "\<not> code c < 128"
  shows "plain (take (utf8_len (c # s)) (c # s))"
proof -
  have cont: "is_cont d \<Longrightarrow> 32 \<le> code d" for d by (simp add: is_cont_def)
  show ?thesis using assms
    by (cases s; cases "tl s"; cases "tl (tl s)") (auto simp: utf8_len_def cont)
qed

lemma json_escape_plain [simp]: "plain (json_escape html s)"
proof (induction html s rule: json_escape.induct)
  case (1 html)
  then show ?case by simp
next
  case (2 html c s)
  then show ?case
    using escape_ascii_plain [of c html] utf8_take_plain [of c s]
    by (auto simp: Let_def backslash_def)
qed

lemma json_string_plain [simp]: "plain (json_string html s)"
  by (simp add: json_string_def quote_def)

lemma json_object_plain: "\<forall>m \<in> set ms. plain (snd m) \<Longrightarrow> plain (json_object ms)"
  by (fastforce simp: json_object_def intro!: plain_Join)

lemma json_data_plain [simp]: "plain (json_data d)"
  by (cases d) (auto simp: json_uint_def json_bool_def intro!: json_object_plain)

lemma rfc3339_plain [simp]: "plain (rfc3339 t)"
  by (simp add: rfc3339_def Let_def plain_dropWhile)

lemma json_envelope_plain: "plain (json_envelope e)"
  by (auto simp: json_envelope_def quote_def intro!: json_object_plain)

definition emit_run ::
    "((Time \<times> bool) \<times> EventType \<times> event_data) list \<Rightarrow> JSONLineWriter \<Rightarrow> JSONLineWriter" where
  "emit_run es j = foldl (\<lambda>j (n, t, d). JSONLine_Emit n t d j) j es"

lemma emit_run_is: "emit_run = line_emitter.emit_all"
  by (simp add: fun_eq_iff emit_run_def line_emitter.emit_all_def)

lemma JSONLine_Emit_encodable:
  "\<forall>e \<in> set (jw_written j). Marshal e \<noteq> None \<Longrightarrow> \<forall>e \<in> set (jw_written (JSONLine_Emit n t d j)). Marshal e \<noteq> None"
  by (auto simp: JSONLine_Emit_def Encode_def split: prod.splits)

lemma emit_run_encodable:
  "\<forall>e \<in> set (jw_written j). Marshal e \<noteq> None \<Longrightarrow> \<forall>e \<in> set (jw_written (emit_run es j)). Marshal e \<noteq> None"
proof (induction es arbitrary: j)
  case Nil
  then show ?case by (simp add: emit_run_def)
next
  case (Cons e es)
  obtain n t d where e: "e = (n, t, d)" by (cases e) auto
  show ?case using Cons.IH [OF JSONLine_Emit_encodable [OF Cons.prems, of n t d]] by (simp add: emit_run_def e)
qed

definition good_io :: "Time \<times> bool \<Rightarrow> bool" where
  "good_io nw \<longleftrightarrow> snd nw \<and> year (fst nw) \<le> 9999"

lemma JSONLine_Emit_good:
  assumes "good_io nw" and "\<not> jw_err j"
  shows "JSONLine_Emit nw t d j =
     j\<lparr>jw_written := jw_written j @ [\<lparr>env_Type = t, env_Timestamp = fst nw, env_Data = d\<rparr>]\<rparr>"
  using assms by (cases nw) (simp add: JSONLine_Emit_def Encode_def Marshal_def good_io_def)

lemma emit_run_good:
  "\<forall>e \<in> set es. good_io (fst e) \<Longrightarrow> \<not> jw_err j \<Longrightarrow>
   map event_of (jw_written (emit_run es j)) = map event_of (jw_written j) @ map snd es"
proof (induction es arbitrary: j)
  case Nil
  then show ?case by (simp add: emit_run_def)
next
  case (Cons e es)
  obtain n t d where e: "e = (n, t, d)" by (cases e) auto
  then have "good_io n" using Cons.prems(1) by simp
  note step = JSONLine_Emit_good [OF this Cons.prems(2), of t d]
  have "emit_run (e # es) j = emit_run es (JSONLine_Emit n t d j)" by (simp add: emit_run_def e)
  then show ?case using Cons.IH [of "JSONLine_Emit n t d j"] Cons.prems
    by (simp add: step e event_of_def)
qed


definition sample_time :: Time where
  "sample_time = \<lparr>year = 2025, month = 6, day = 1, hour = 12, minute = 30, second = 0, nanosecond = 0, zone_offset = 0\<rparr>"


section \<open>The asynchronous writer\<close>

text \<open>
  In every reachable state the queue is bounded by its capacity and holds exactly the most
  recently accepted events, in order; what was written is a subsequence of the events before them.
\<close>

definition async_ok :: "async_sys \<Rightarrow> bool" where
  "async_ok = (\<lambda>(a, acc). chan_ok (aw_events a) \<and> chan_cap (aw_events a) = 64 \<and>
     (\<exists>taken. acc = taken @ map event_of (chan_buf (aw_events a)) \<and>
              subseq (map event_of (jw_written (aw_w a))) taken) \<and>
     (aw_pc a \<noteq> Selecting \<longrightarrow> aw_done a))"

text \<open>When the environment is well behaved nothing that was taken from the queue is lost.\<close>

definition async_lossless :: "async_sys \<Rightarrow> bool" where
  "async_lossless = (\<lambda>(a, acc). \<not> jw_err (aw_w a) \<and>
     acc = map event_of (jw_written (aw_w a)) @ map event_of (chan_buf (aw_events a)))"

lemma write_one_cases:
  assumes "write_one nw a = Some a'"
  obtains e es where "chan_buf (aw_events a) = e # es"
    and "a' = a\<lparr>aw_events := (aw_events a)\<lparr>chan_buf := es\<rparr>,
                aw_w := JSONLine_Emit nw (env_Type e) (env_Data e) (aw_w a)\<rparr>"
  using assms by (auto simp: write_one_def chan_recv_def split: list.splits)

lemma JSONLine_Emit_written:
  "map event_of (jw_written (JSONLine_Emit nw t d j)) = map event_of (jw_written j) \<or>
   map event_of (jw_written (JSONLine_Emit nw t d j)) = map event_of (jw_written j) @ [(t, d)]"
  by (rule line_emitter.emit_kept)

lemma write_one_ok:
  assumes "write_one nw a = Some a'" and "async_ok (a, acc)"
  shows "async_ok (a', acc)"
  using assms(1)
proof (rule write_one_cases)
  fix e es
  assume buf: "chan_buf (aw_events a) = e # es"
    and a': "a' = a\<lparr>aw_events := (aw_events a)\<lparr>chan_buf := es\<rparr>,
                aw_w := JSONLine_Emit nw (env_Type e) (env_Data e) (aw_w a)\<rparr>"
  obtain taken where acc: "acc = taken @ event_of e # map event_of es"
    and sub: "subseq (map event_of (jw_written (aw_w a))) taken"
    using assms(2) buf by (auto simp: async_ok_def)
  have "subseq (map event_of (jw_written (aw_w a'))) (taken @ [event_of e])"
    using JSONLine_Emit_written [of nw "env_Type e" "env_Data e" "aw_w a"] sub
    by (auto simp: a' event_of_def intro: subseq_rev_drop_many)
  then show ?thesis
    using assms(2) buf acc a' by (auto simp: async_ok_def chan_ok_def intro!: exI [of _ "taken @ [event_of e]"])
qed

lemma write_one_lossless:
  assumes "write_one nw a = Some a'" and "good_io nw" and "async_lossless (a, acc)"
  shows "async_lossless (a', acc)"
  using assms(1)
  by (rule write_one_cases) (use assms(2,3) in \<open>auto simp: async_lossless_def JSONLine_Emit_good event_of_def\<close>)

lemma Async_Emit_ok:
  "async_ok (a, acc) \<Longrightarrow> async_ok (Async_Emit now t d a,
     if length (chan_buf (aw_events a)) < chan_cap (aw_events a) then acc @ [(t, d)] else acc)"
  by (auto simp: async_ok_def Async_Emit_def chan_try_send_def chan_ok_def event_of_def)

lemma Async_Emit_lossless:
  "async_lossless (a, acc) \<Longrightarrow> async_lossless (Async_Emit now t d a,
     if length (chan_buf (aw_events a)) < chan_cap (aw_events a) then acc @ [(t, d)] else acc)"
  by (auto simp: async_lossless_def Async_Emit_def chan_try_send_def event_of_def)

lemma writer_step_ok: "writer_step env a a' \<Longrightarrow> async_ok (a, acc) \<Longrightarrow> async_ok (a', acc)"
  by (erule writer_stepE) (auto intro: write_one_ok, simp_all add: async_ok_def)

lemma writer_step_lossless:
  "writer_step good_io a a' \<Longrightarrow> async_lossless (a, acc) \<Longrightarrow> async_lossless (a', acc)"
  by (erule writer_stepE) (auto intro: write_one_lossless, simp_all add: async_lossless_def)

lemma async_step_ok:
  assumes "async_ok s" and "async_step env s t"
  shows "async_ok t"
  using assms(2)
proof cases
  case (emit a acc now ty d)
  then show ?thesis using assms(1) Async_Emit_ok [of a acc now ty d] by (simp only:)
next
  case (writer a a' acc)
  then show ?thesis using assms(1) writer_step_ok [of env a a' acc] by (simp only:)
next
  case (close a a' acc)
  then show ?thesis using assms(1) by (auto simp: async_ok_def Async_Close_begin_def split: if_splits)
qed

lemma async_step_lossless:
  assumes "async_lossless s" and "async_step good_io s t"
  shows "async_lossless t"
  using assms(2)
proof cases
  case (emit a acc now ty d)
  then show ?thesis using assms(1) Async_Emit_lossless [of a acc now ty d] by (simp only:)
next
  case (writer a a' acc)
  then show ?thesis using assms(1) writer_step_lossless [of a a' acc] by (simp only:)
next
  case (close a a' acc)
  then show ?thesis using assms(1) by (auto simp: async_lossless_def Async_Close_begin_def split: if_splits)
qed

interpretation async: transition_invariant "\<lambda>s. s = (NewAsyncJSONLineWriter closer, [])" "async_step env" async_ok
  for closer env
proof (unfold_locales, goal_cases)
  case (1 s)
  then show ?case
    by (simp add: async_ok_def NewAsyncJSONLineWriter_def NewJSONLineWriter_def make_chan_def chan_ok_def)
next
  case (2 s t)
  then show ?case by (rule async_step_ok)
qed

interpretation async_good: transition_invariant "\<lambda>s. s = (NewAsyncJSONLineWriter closer, [])"
  "async_step good_io" async_lossless for closer
proof (unfold_locales, goal_cases)
  case (1 s)
  then show ?case
    by (simp add: async_lossless_def NewAsyncJSONLineWriter_def NewJSONLineWriter_def make_chan_def)
next
  case (2 s t)
  then show ?case by (rule async_step_lossless)
qed

text \<open>
  C27. In every reachable state of the asynchronous writer, under any interleaving of callers,
  background goroutine and close and any write failures: the queue never exceeds 64 events and
  holds exactly the last accepted ones in order, and the events written are a subsequence, in
  order, of the accepted events that left the queue.
\<close>

theorem async_order:
  assumes "(async_step env)\<^sup>*\<^sup>* (NewAsyncJSONLineWriter closer, []) (a, acc)"
  shows "length (chan_buf (aw_events a)) \<le> 64 \<and>
     (\<exists>taken. acc = taken @ map event_of (chan_buf (aw_events a)) \<and>
              subseq (map event_of (jw_written (aw_w a))) taken)"
  using async.inv_reachable [OF refl assms] by (auto simp: async_ok_def chan_ok_def)

theorem async_order_witness:
  "\<exists>taken. [(EventError, ErrorData ''x'')] =
      taken @ map event_of (chan_buf (aw_events (Async_Emit sample_time EventError (ErrorData ''x'') (NewAsyncJSONLineWriter False))))"
proof -
  let ?a = "NewAsyncJSONLineWriter False"
  let ?b = "Async_Emit sample_time EventError (ErrorData ''x'') ?a"
  have "async_step good_io (?a, []) (?b, [(EventError, ErrorData ''x'')])"
    using async_step.emit [of good_io ?a "[]" sample_time EventError "ErrorData ''x''"]
    by (simp add: NewAsyncJSONLineWriter_def make_chan_def)
  then have "(async_step good_io)\<^sup>*\<^sup>* (?a, []) (?b, [(EventError, ErrorData ''x'')])" by blast
  then show ?thesis using async_order by blast
qed

definition writer_work :: "AsyncJSONLineWriter \<Rightarrow> nat" where
  "writer_work a = length (chan_buf (aw_events a)) +
     (case aw_pc a of Selecting \<Rightarrow> 2 | Draining \<Rightarrow> 1 | Stopped \<Rightarrow> 0)"

lemma writer_step_work: "writer_step env a a' \<Longrightarrow> writer_work a' < writer_work a"
  by (erule writer_stepE) (auto elim!: write_one_cases simp: writer_work_def)

lemma writer_run_work: "(writer_step env ^^ n) a b \<Longrightarrow> n + writer_work b \<le> writer_work a"
proof (induction n arbitrary: b)
  case 0
  then show ?case by simp
next
  case (Suc n)
  then obtain c where "(writer_step env ^^ n) a c" and "writer_step env c b" by auto
  then show ?case using Suc.IH [of c] writer_step_work [of env c b] by simp
qed

text \<open>What the goroutine keeps after the close while nobody emits.\<close>

definition closing :: "(EventType \<times> event_data) list \<Rightarrow> AsyncJSONLineWriter \<Rightarrow> bool" where
  "closing acc b \<longleftrightarrow> aw_done b \<and> (aw_pc b = Stopped \<longrightarrow> chan_buf (aw_events b) = []) \<and>
     async_lossless (b, acc)"

lemma closing_step:
  assumes "closing acc a" and "writer_step good_io a b"
  shows "closing acc b"
  using assms(2)
proof (rule writer_stepE)
  fix nw assume "write_one nw a = Some b" and "aw_pc a = Selecting"
  then show ?thesis using writer_step_lossless [OF assms(2), of acc] assms(1)
    by (auto simp: closing_def elim!: write_one_cases)
next
  fix nw assume "write_one nw a = Some b" and "aw_pc a = Draining"
  then show ?thesis using writer_step_lossless [OF assms(2), of acc] assms(1)
    by (auto simp: closing_def elim!: write_one_cases)
qed (use assms(1) in \<open>auto simp: closing_def async_lossless_def\<close>)

lemma closing_steps: "(writer_step good_io)\<^sup>*\<^sup>* a b \<Longrightarrow> closing acc a \<Longrightarrow> closing acc b"
  by (induction rule: rtranclp_induct) (auto intro: closing_step)

lemma good_io_sample: "good_io (sample_time, True)"
  by (simp add: good_io_def sample_time_def)

lemma closing_progress:
  assumes "closing acc b" and "\<not> (\<exists>c. writer_step good_io b c)"
  shows "aw_pc b = Stopped"
proof (cases "aw_pc b")
  case Selecting
  with assms see_done [of b good_io] show ?thesis by (auto simp: closing_def)
next
  case Draining
  show ?thesis
  proof (cases "chan_buf (aw_events b)")
    case Nil
    with assms(2) Draining drained [of b good_io] show ?thesis by blast
  next
    case (Cons e es)
    then obtain c where "write_one (sample_time, True) b = Some c"
      by (simp add: write_one_def chan_recv_def)
    with assms(2) Draining drain_event [of b good_io] good_io_sample show ?thesis by blast
  qed
qed



text \<open>
  The asynchronous writer drops the time of the event: whatever timestamp was queued, the
  line written carries the time at which the background goroutine got to it.
\<close>

lemma async_restamps:
  assumes "chan_buf (aw_events a) = e # es" and "good_io (now, ok)" and "\<not> jw_err (aw_w a)"
  shows "\<exists>a'. write_one (now, ok) a = Some a' \<and>
     last (jw_written (aw_w a')) = e\<lparr>env_Timestamp := now\<rparr>"
  using assms by (simp add: write_one_def chan_recv_def JSONLine_Emit_good)

end
