(* ===== verification/Bridge_Stats.thy ===== *)
theory Bridge_Stats
  imports Float64
begin

text \<open>
  The statistics of the bridge (\<^verbatim>\<open>internal/bridge/bridge.go\<close>, type \<^verbatim>\<open>Stats\<close> and the formatting
  helpers): packet and byte counters as 64-bit words, the sliding window of round-trip samples
  with its running sum, spike detection in floating point, and the human-readable numbers of the
  statistics line, with \<^verbatim>\<open>time.Duration\<close>'s rounding and printing.
\<close>

section \<open>Durations\<close>

definition Nanosecond :: int where "Nanosecond = 1"
definition Microsecond :: int where "Microsecond = 1000"
definition Millisecond :: int where [simp]: "Millisecond = 1000000"
definition Second :: int where "Second = 1000000000"

definition lessThanHalf :: "int64 \<Rightarrow> int64 \<Rightarrow> bool" where
  "lessThanHalf x y \<longleftrightarrow> x + x < y"

definition Duration_Round :: "duration \<Rightarrow> duration \<Rightarrow> duration" where
  "Duration_Round d m =
     (if sint m \<le> 0 then d
      else let r = word_of_int (sint d smod sint m) in
        if sint d < 0 then
          (let r' = - r in
           if lessThanHalf r' m then d + r'
           else let d1 = d - m + r' in if go_less d1 d then d1 else 0x8000000000000000)
        else if lessThanHalf r m then d - r
        else let d1 = d + m - r in if go_less d d1 then d1 else 0x7FFFFFFFFFFFFFFF)"

text \<open>Decimal digits after the point, without trailing zeros; no point when nothing is left.\<close>

definition fmtFrac :: "nat \<Rightarrow> nat \<Rightarrow> string" where
  "fmtFrac v prec =
     (let ds = rev (dropWhile (\<lambda>c. c = CHR ''0'') (rev (fmt_0d prec (v mod 10 ^ prec))))
      in if prec = 0 \<or> ds = [] then [] else ''.'' @ ds)"

definition Duration_String :: "duration \<Rightarrow> string" where
  "Duration_String d =
     (let neg = sint d < 0; u = nat \<bar>sint d\<bar>;
          body =
            (if u = 0 then ''0s''
             else if u < nat Microsecond then fmt_d u @ ''ns''
             else if u < nat Millisecond then
               fmt_d (u div 1000) @ fmtFrac u 3 @ [char_of (194 :: nat), char_of (181 :: nat)] @ ''s''
             else if u < nat Second then fmt_d (u div 1000000) @ fmtFrac u 6 @ ''ms''
             else let s = u div 1000000000; secs = fmt_d (s mod 60) @ fmtFrac u 9 @ ''s'';
                      m = s div 60
                  in if m = 0 then secs
                     else if m div 60 = 0 then fmt_d (m mod 60) @ ''m'' @ secs
                     else fmt_d (m div 60) @ ''h'' @ fmt_d (m mod 60) @ ''m'' @ secs)
      in (if neg then ''-'' else []) @ body)"

section \<open>Statistics\<close>

record Stats =
  TxPackets :: uint64
  TxBytes :: uint64
  RxPackets :: uint64
  RxBytes :: uint64
  RTTCurrent :: duration
  RTTAvg :: duration
  rttSamples :: "duration list"
  rttSum :: duration
  lastRTT :: duration

definition new_Stats :: Stats where
  "new_Stats =
     \<lparr>TxPackets = 0, TxBytes = 0, RxPackets = 0, RxBytes = 0, RTTCurrent = 0, RTTAvg = 0,
      rttSamples = [], rttSum = 0, lastRTT = 0\<rparr>"

definition AddRTTSample :: "duration \<Rightarrow> Stats \<Rightarrow> Stats" where
  "AddRTTSample rtt s =
     (let s1 = s\<lparr>RTTCurrent := rtt, rttSamples := rttSamples s @ [rtt], rttSum := rttSum s + rtt\<rparr>;
          s2 = (if length (rttSamples s1) > 20
                then s1\<lparr>rttSum := rttSum s1 - hd (rttSamples s1), rttSamples := tl (rttSamples s1)\<rparr>
                else s1)
      in s2\<lparr>RTTAvg := go_div (rttSum s2) (of_nat (length (rttSamples s2)))\<rparr>)"

definition CheckRTTSpike :: "Stats \<Rightarrow> bool \<times> duration \<times> duration" where
  "CheckRTTSpike s =
     (if length (rttSamples s) < 2 \<or> lastRTT s = 0 then (False, 0, 0)
      else let current = RTTCurrent s; previous = lastRTT s in
        if 0 < sint previous \<and>
           f64_less (f64_half (f64_of_int (sint previous))) (f64_of_int (sint (current - previous)))
        then (True, previous, current)
        else (False, 0, 0))"

definition SetLastRTT :: "duration \<Rightarrow> Stats \<Rightarrow> Stats" where
  "SetLastRTT rtt s = s\<lparr>lastRTT := rtt\<rparr>"

definition GetRTTCurrent :: "Stats \<Rightarrow> duration" where
  "GetRTTCurrent s = RTTCurrent s"

section \<open>Human-readable numbers\<close>

definition formatNumber :: "uint64 \<Rightarrow> string" where
  "formatNumber w =
     (let n = unat w in
      if n < 1000 then fmt_d n
      else if n < 1000000 then fmt_d (n div 1000) @ '','' @ fmt_0d 3 (n mod 1000)
      else fmt_d (n div 1000000) @ '','' @ fmt_0d 3 (n div 1000 mod 1000) @ '','' @ fmt_0d 3 (n mod 1000))"

definition formatBytes :: "uint64 \<Rightarrow> string" where
  "formatBytes w =
     (let b = unat w in
      if b \<ge> 1073741824 then fmt_1f (f64_div (f64_of_int (int b)) (f64_of_int 1073741824)) @ '' GB''
      else if b \<ge> 1048576 then fmt_1f (f64_div (f64_of_int (int b)) (f64_of_int 1048576)) @ '' MB''
      else if b \<ge> 1024 then fmt_d (b div 1024) @ '' KB''
      else fmt_d b @ '' B'')"

definition stats_message :: "Stats \<Rightarrow> string" where
  "stats_message s =
     ''TX: '' @ formatNumber (TxPackets s) @ '' pkts ('' @ formatBytes (TxBytes s) @
     '') | RX: '' @ formatNumber (RxPackets s) @ '' pkts ('' @ formatBytes (RxBytes s) @
     '') | RTT: '' @ Duration_String (Duration_Round (GetRTTCurrent s) (word_of_int Millisecond))"

section \<open>The sample window\<close>

definition window20 :: "'a list \<Rightarrow> 'a list" where
  "window20 xs = drop (length xs - 20) xs"

lemma length_window20 [simp]: "length (window20 xs) = min 20 (length xs)"
  by (auto simp: window20_def)

lemma window20_snoc:
  "window20 (xs @ [x]) =
     (if length (window20 xs) < 20 then window20 xs @ [x] else tl (window20 xs) @ [x])"
proof (cases "length xs < 20")
  case True
  then show ?thesis by (simp add: window20_def)
next
  case False
  then have "Suc (length xs) - 20 = Suc (length xs - 20)" by simp
  with False show ?thesis by (simp add: window20_def tl_drop drop_Suc)
qed

definition add_samples :: "duration list \<Rightarrow> Stats \<Rightarrow> Stats" where
  "add_samples xs s = foldl (\<lambda>t x. AddRTTSample x t) s xs"

definition stats_ok :: "Stats \<Rightarrow> bool" where
  "stats_ok s \<longleftrightarrow> length (rttSamples s) \<le> 20 \<and> rttSum s = sum_list (rttSamples s)"

lemma stats_ok_new [simp]: "stats_ok new_Stats"
  by (simp add: stats_ok_def new_Stats_def)

lemma AddRTTSample_samples:
  "length (rttSamples s) \<le> 20 \<Longrightarrow>
   rttSamples (AddRTTSample x s) =
     (if length (rttSamples s) < 20 then rttSamples s @ [x] else tl (rttSamples s) @ [x])"
  by (cases "rttSamples s") (auto simp: AddRTTSample_def Let_def)

lemma AddRTTSample_ok: "stats_ok s \<Longrightarrow> stats_ok (AddRTTSample x s)"
  by (cases "rttSamples s") (auto simp: AddRTTSample_def stats_ok_def Let_def)

lemma AddRTTSample_avg:
  "RTTAvg (AddRTTSample x s) =
     go_div (rttSum (AddRTTSample x s)) (of_nat (length (rttSamples (AddRTTSample x s))))"
  by (simp add: AddRTTSample_def Let_def)

lemma add_samples_snoc [simp]: "add_samples (xs @ [x]) s = AddRTTSample x (add_samples xs s)"
  by (simp add: add_samples_def)

lemma add_samples_window:
  "rttSamples (add_samples xs new_Stats) = window20 xs \<and> stats_ok (add_samples xs new_Stats)"
proof (induction xs rule: rev_induct)
  case Nil
  then show ?case by (simp add: add_samples_def window20_def new_Stats_def stats_ok_def)
next
  case (snoc x xs)
  let ?s = "add_samples xs new_Stats"
  have "length (rttSamples ?s) \<le> 20" using snoc by simp
  then show ?case
    using snoc AddRTTSample_ok [of ?s x] by (simp add: AddRTTSample_samples window20_snoc)
qed

text \<open>
  After any sequence of round-trip samples the statistics hold exactly the last twenty of
  them, their sum (as 64-bit arithmetic gives it), the newest as the current value and the
  truncated quotient of sum and count as the average.
\<close>

lemma rtt_window:
  assumes "xs \<noteq> []"
  shows "let s = add_samples xs new_Stats in
     rttSamples s = window20 xs \<and> rttSum s = sum_list (window20 xs) \<and>
     RTTCurrent s = last xs \<and>
     RTTAvg s = go_div (sum_list (window20 xs)) (of_nat (min 20 (length xs)))"
proof -
  obtain ys x where xs: "xs = ys @ [x]" using assms by (meson rev_exhaust)
  let ?s = "add_samples xs new_Stats"
  have w: "rttSamples ?s = window20 xs" "rttSum ?s = sum_list (window20 xs)"
    using add_samples_window [of xs] by (simp_all add: stats_ok_def)
  have "RTTCurrent ?s = x" by (simp add: xs AddRTTSample_def Let_def)
  moreover have "RTTAvg ?s = go_div (rttSum ?s) (of_nat (length (rttSamples ?s)))"
    using AddRTTSample_avg [of x "add_samples ys new_Stats"] by (simp add: xs)
  ultimately show ?thesis using w by (simp add: Let_def xs)
qed

text \<open>Samples that are durations of less than nine years keep the sum below the sign bit.\<close>

lemma sint_small:
  fixes w :: int64
  assumes "uint w < 2 ^ 63"
  shows "sint w = uint w"
  using assms by (simp add: sint_uint signed_take_bit_eq_if_positive bit_iff_odd uint_div_distrib
      take_bit_int_eq_self_iff)

lemma sint_of_int64:
  fixes k :: int
  assumes "- (2 ^ 63) \<le> k" and "k < 2 ^ 63"
  shows "sint (word_of_int k :: int64) = k"
  using assms by (simp add: sint_sbintrunc' signed_take_bit_int_eq_self_iff)
lemma uint_nonneg_sint:
  fixes w :: int64
  assumes "0 \<le> sint w"
  shows "uint w = sint w"
proof -
  have "uint w = uint (word_of_int (sint w) :: int64)" by simp
  also have "\<dots> = sint w mod 2 ^ 64" unfolding uint_word_of_int by simp
  also have "\<dots> = sint w" using assms sint_lt [of w] by simp
  finally show ?thesis .
qed

lemma uint_sum_list:
  fixes ws :: "int64 list"
  assumes "sum_list (map uint ws) < 2 ^ 64"
  shows "uint (sum_list ws) = sum_list (map uint ws)"
  using assms
proof (induction ws)
  case Nil
  then show ?case by simp
next
  case (Cons w ws)
  have "0 \<le> sum_list (map uint ws)" by (rule sum_list_nonneg) auto
  moreover have "uint w + sum_list (map uint ws) < 2 ^ 64" using Cons.prems by simp
  moreover from calculation have "uint (sum_list ws) = sum_list (map uint ws)"
    using Cons.IH uint64_bounds(1) [of w] by linarith
  ultimately show ?case using uint64_bounds(1) [of w] by (simp add: uint_word_ariths(1))
qed

lemma sum_list_bounds:
  fixes lo hi :: int
  assumes "\<forall>x \<in> set xs. lo \<le> x \<and> x \<le> hi"
  shows "lo * int (length xs) \<le> sum_list xs" and "sum_list xs \<le> hi * int (length xs)"
  using assms by (induction xs) (auto simp: algebra_simps)

lemma set_window20: "set (window20 xs) \<subseteq> set xs"
  by (simp add: window20_def set_drop_subset)

lemma go_div_nonneg:
  assumes "0 \<le> sint a" and "0 < sint b"
  shows "sint (go_div a b) = sint a div sint b"
proof -
  have "sint a < 2 ^ 63" using sint_lt [of a] by simp
  moreover have "sint a div sint b \<le> sint a"
    using assms zdiv_mono2 [of "sint a" 1 "sint b"] by simp
  ultimately have "0 \<le> sint a div sint b" "sint a div sint b < 2 ^ 63"
    using assms by (simp_all add: pos_imp_zdiv_nonneg_iff)
  moreover have "sint a sdiv sint b = sint a div sint b"
    using assms by (cases "sint a = 0") (simp_all add: signed_divide_int_def)
  ultimately show ?thesis by (simp add: go_div_def sint_of_int64)
qed

lemma average_bounds:
  fixes ws :: "int64 list"
  assumes "ws \<noteq> []" and "length ws \<le> 20" and "0 \<le> lo" and "hi < 2 ^ 58"
    and "\<forall>x \<in> set ws. lo \<le> sint x \<and> sint x \<le> hi"
  shows "sint (go_div (sum_list ws) (of_nat (length ws))) = sum_list (map sint ws) div int (length ws)"
    and "lo \<le> sum_list (map sint ws) div int (length ws)"
    and "sum_list (map sint ws) div int (length ws) \<le> hi"
proof -
  define n where "n = int (length ws)"
  define t where "t = sum_list (map sint ws)"
  have n: "0 < n" "n \<le> 20" using assms(1,2) by (simp_all add: n_def)
  have b: "lo * n \<le> t" "t \<le> hi * n"
    using sum_list_bounds [of "map sint ws" lo hi] assms(5) by (simp_all add: n_def t_def)
  obtain x where "x \<in> set ws" using assms(1) by (meson hd_in_set)
  then have "0 \<le> hi" using assms(3,5) by force
  then have "hi * n \<le> hi * 20" using n(2) by (intro mult_left_mono)
  then have lt: "t < 2 ^ 63" using b(2) assms(4) by simp
  have "0 \<le> lo * n" using assms(3) n(1) by simp
  then have ge: "0 \<le> t" using b(1) by linarith
  have "map uint ws = map sint ws"
    using assms(3,5) by (auto intro!: uint_nonneg_sint)
  then have "sum_list (map uint ws) = t" by (simp only: t_def)
  then have u: "uint (sum_list ws) = t" using uint_sum_list [of ws] lt by simp
  then have s: "sint (sum_list ws) = t" using lt sint_small [of "sum_list ws"] by simp
  have l: "sint (of_nat (length ws) :: int64) = n"
    using sint_of_int64 [of n] n by (simp add: n_def)
  show "sint (go_div (sum_list ws) (of_nat (length ws))) = sum_list (map sint ws) div int (length ws)"
    using go_div_nonneg [of "sum_list ws" "of_nat (length ws)"] ge n s l by (simp add: n_def t_def)
  show "lo \<le> sum_list (map sint ws) div int (length ws)"
    using zdiv_mono1 [OF b(1) n(1)] n(1) by (simp add: n_def t_def)
  show "sum_list (map sint ws) div int (length ws) \<le> hi"
    using zdiv_mono1 [OF b(2) n(1)] n(1) by (simp add: n_def t_def)
qed

text \<open>
  C38. The average is an average: when every sample lies between \<open>lo\<close> and \<open>hi\<close> nanoseconds,
  not negative and below nine years, no intermediate sum overflows, the average is the sum of the
  window divided by its length, and it lies between \<open>lo\<close> and \<open>hi\<close> again.
\<close>

theorem rtt_average_bounds:
  assumes "xs \<noteq> []" and "0 \<le> lo" and "hi < 2 ^ 58"
    and "\<forall>x \<in> set xs. lo \<le> sint x \<and> sint x \<le> hi"
  shows "let a = sint (RTTAvg (add_samples xs new_Stats)); w = window20 xs in
     a = sum_list (map sint w) div int (length w) \<and> lo \<le> a \<and> a \<le> hi"
proof -
  let ?w = "window20 xs"
  obtain ys x where xs: "xs = ys @ [x]" using assms(1) by (meson rev_exhaust)
  have avg: "RTTAvg (add_samples xs new_Stats) = go_div (sum_list ?w) (of_nat (length ?w))"
    using AddRTTSample_avg [of x "add_samples ys new_Stats"] add_samples_window [of xs]
    by (simp add: xs stats_ok_def del: length_window20)
  have "length ?w \<noteq> 0" using assms(1) by simp
  then have "?w \<noteq> []" by blast
  moreover have "\<forall>x \<in> set ?w. lo \<le> sint x \<and> sint x \<le> hi" using assms(4) set_window20 [of xs] by blast
  ultimately show ?thesis
    using average_bounds [of ?w lo hi] assms(2,3) by (simp add: avg Let_def del: length_window20) simp
qed

theorem rtt_average_bounds_witness:
  "sint (RTTAvg (add_samples [3, 4, 6] new_Stats)) = 4"
  using rtt_average_bounds [of "[3, 4, 6]" 0 10] by (simp add: Let_def window20_def)

section \<open>Spikes\<close>



section \<open>Number formats\<close>

text \<open>The reference: decimal digits in groups of three.\<close>

fun grouped :: "nat \<Rightarrow> string" where
  "grouped n = (if n < 1000 then fmt_d n else grouped (n div 1000) @ '','' @ fmt_0d 3 (n mod 1000))"

declare grouped.simps [simp del]

lemma grouped_small: "n < 1000 \<Longrightarrow> grouped n = fmt_d n"
  by (simp add: grouped.simps)

lemma grouped_large: "1000 \<le> n \<Longrightarrow> grouped n = grouped (n div 1000) @ '','' @ fmt_0d 3 (n mod 1000)"
  by (subst grouped.simps) simp

lemma comma_not_digit: "CHR '','' \<notin> set (fmt_d n)"
proof
  assume "CHR '','' \<in> set (fmt_d n)"
  then obtain d where d: "d \<in> set (digits 10 n)" and c: "digit_char d = CHR '',''"
    by (auto simp: fmt_d_def)
  have "d < 10" using digits_less [of 10 d n] d by simp
  with c have "char_of (48 + d) = CHR '',''" by (simp add: digit_char_def)
  then have "(48 + d) mod 256 = 44" by (simp add: char_of_eq_iff take_bit_eq_mod)
  with \<open>d < 10\<close> show False by simp
qed

lemma fmt_d_not_grouped: "1000 \<le> n \<Longrightarrow> fmt_d n \<noteq> grouped n"
  using comma_not_digit [of n] by (metis grouped_large in_set_conv_decomp append_Cons append_Nil)

text \<open>
  \<^verbatim>\<open>formatNumber\<close> prints the number with a comma before every group of three digits exactly
  for numbers below one thousand million; from there on the leading group has no comma.
\<close>

lemma formatNumber_grouped: "formatNumber w = grouped (unat w) \<longleftrightarrow> unat w < 1000000000"
proof -
  define n where "n = unat w"
  consider "n < 1000" | "1000 \<le> n" "n < 1000000" | "1000000 \<le> n" by linarith
  then show ?thesis
  proof cases
    case 1
    then show ?thesis by (simp add: formatNumber_def n_def [symmetric] grouped_small)
  next
    case 2
    then have "n div 1000 < 1000" by simp
    with 2 show ?thesis
      by (simp add: formatNumber_def n_def [symmetric] grouped_large [of n] grouped_small)
  next
    case 3
    then have k: "1000 \<le> n div 1000" by simp
    have "n div 1000 div 1000 = n div 1000000" by (simp add: div_mult2_eq [symmetric])
    then have g: "grouped n = grouped (n div 1000000) @ '','' @ fmt_0d 3 (n div 1000 mod 1000) @
        '','' @ fmt_0d 3 (n mod 1000)"
      using 3 k by (simp add: grouped_large [of n] grouped_large [of "n div 1000"])
    have "formatNumber w = grouped n \<longleftrightarrow> fmt_d (n div 1000000) = grouped (n div 1000000)"
      using 3 by (simp add: formatNumber_def n_def [symmetric] g)
    moreover have "fmt_d (n div 1000000) = grouped (n div 1000000) \<longleftrightarrow> n div 1000000 < 1000"
      using fmt_d_not_grouped [of "n div 1000000"] grouped_small [of "n div 1000000"] by (metis not_less)
    moreover have "n div 1000000 < 1000 \<longleftrightarrow> n < 1000000000" by (simp add: div_less_iff_less_mult)
    ultimately show ?thesis by (simp add: n_def)
  qed
qed

lemma bit_len_pow2: "bit_len (2 ^ k) = Suc k"
proof (induction k)
  case 0
  then show ?case by (simp add: bit_len.simps)
next
  case (Suc k)
  then show ?case by (subst bit_len.simps) simp
qed

lemma rne_div_exact: "rne_div (b * 2 ^ (j + k)) (2 ^ k) = b * 2 ^ j"
  using rne_div_cancel [of "2 ^ k" "b * 2 ^ j" 1] by (simp add: power_add ac_simps)

lemma f64_div_pow2:
  assumes "b < 2 ^ 53"
  obtains j where "f64_div (F64 (int b) 0) (F64 (2 ^ k) 0) = F64 (int (b * 2 ^ j)) (- int (j + k))"
proof -
  have len: "bit_len b \<le> 53" using assms by (rule bit_len_le)
  have abs: "nat \<bar>(2 :: int) ^ k\<bar> = 2 ^ k" "nat \<bar>int b\<bar> = b" "sgn ((2 :: int) ^ k) = 1"
    by (simp_all add: nat_power_eq)
  define s0 where "s0 = 53 + int (bit_len (2 ^ k)) - int (bit_len b)"
  define s where "s = (if 2 ^ 53 \<le> b * 2 ^ nat s0 div (2 ^ k * 2 ^ nat (- s0)) then s0 - 1 else s0)"
  have s: "int k \<le> s" using len by (simp add: s_def s0_def bit_len_pow2)
  have d: "f64_div (F64 (int b) 0) (F64 (2 ^ k) 0) =
      F64 (sgn (int b) * int (rne_div (b * 2 ^ nat s) (2 ^ k * 2 ^ nat (- s)))) (- s)"
    unfolding f64_div_def Let_def float64.sel abs s0_def [symmetric] s_def [symmetric] by simp
  define j where "j = nat (s - int k)"
  have "nat s = j + k" "nat (- s) = 0" "s = int (j + k)" using s by (simp_all add: j_def)
  then have "f64_div (F64 (int b) 0) (F64 (2 ^ k) 0) = F64 (sgn (int b) * int (b * 2 ^ j)) (- int (j + k))"
    by (simp add: d rne_div_exact)
  moreover have "sgn (int b) * int (b * 2 ^ j) = int (b * 2 ^ j)" by (cases "b = 0") simp_all
  ultimately show thesis using that by simp
qed

lemma f64_tenths_div_pow2:
  assumes "b < 2 ^ 53"
  shows "f64_tenths (f64_div (F64 (int b) 0) (F64 (2 ^ k) 0)) = rne_div (10 * b) (2 ^ k)"
proof -
  obtain j where d: "f64_div (F64 (int b) 0) (F64 (2 ^ k) 0) = F64 (int (b * 2 ^ j)) (- int (j + k))"
    using f64_div_pow2 [OF assms] .
  have "rne_div (10 * (b * 2 ^ j)) (2 ^ (j + k)) = rne_div (2 ^ j * (10 * b)) (2 ^ j * 2 ^ k)"
    by (simp add: power_add ac_simps)
  also have "\<dots> = rne_div (10 * b) (2 ^ k)" by (rule rne_div_cancel) simp
  finally have e: "rne_div (10 * (b * 2 ^ j)) (2 ^ (j + k)) = rne_div (10 * b) (2 ^ k)" .
  have "nat (int (b * 2 ^ j)) = b * 2 ^ j" "nat (- int (j + k)) = 0" "nat (- (- int (j + k))) = j + k"
    by linarith+
  then show ?thesis unfolding d f64_tenths_def float64.sel e [symmetric] by (simp only: power_0 mult_1_right)
qed

text \<open>
  \<^verbatim>\<open>formatBytes\<close> prints sizes from one mebibyte to eight pebibytes with one decimal that is the
  size in units of MB or GB rounded to the nearest tenth: the printed number of tenths is at most
  half a tenth away.
\<close>

lemma formatBytes_tenths:
  assumes "1048576 \<le> unat w" and "unat w < 2 ^ 53"
  shows "\<exists>t. formatBytes w = fmt_d (t div 10) @ ''.'' @ fmt_d (t mod 10) @
       (if 1073741824 \<le> unat w then '' GB'' else '' MB'') \<and>
     (let unit = (if 1073741824 \<le> unat w then 1073741824 else 1048576) in
        \<bar>20 * int (unat w) - 2 * (unit * int t)\<bar> \<le> unit)"
proof -
  define k :: nat where "k = (if 1073741824 \<le> unat w then 30 else 20)"
  define t where "t = rne_div (10 * unat w) (2 ^ k)"
  have k: "(2 :: int) ^ k = (if 1073741824 \<le> unat w then 1073741824 else 1048576)" by (simp add: k_def)
  have "\<bar>int (unat w)\<bar> < 2 ^ 53" using assms(2) by (simp add: of_nat_less_iff [where 'a = int, symmetric])
  then have "f64_of_int (int (unat w)) = F64 (int (unat w)) 0" by (rule f64_of_int_exact)
  moreover have "f64_of_int (2 ^ k) = F64 (2 ^ k) 0" by (rule f64_of_int_exact) (simp add: k_def)
  ultimately have "f64_tenths (f64_div (f64_of_int (int (unat w))) (f64_of_int (2 ^ k))) = t"
    using f64_tenths_div_pow2 [OF assms(2), of k] by (simp add: t_def)
  then have "formatBytes w = fmt_d (t div 10) @ ''.'' @ fmt_d (t mod 10) @
       (if 1073741824 \<le> unat w then '' GB'' else '' MB'')"
    using assms(1) k by (simp add: formatBytes_def fmt_1f_def Let_def split: if_splits)
  moreover have "\<bar>20 * int (unat w) - 2 * (2 ^ k * int t)\<bar> \<le> 2 ^ k"
    using rne_div_near [of "2 ^ k" "10 * unat w"] unfolding t_def [symmetric]
    by (simp add: of_nat_le_iff [where 'a = int, symmetric] del: of_nat_le_iff)
  ultimately show ?thesis unfolding k Let_def by blast
qed

end
