(* ===== verification/Capture.thy ===== *)
theory Capture
  imports Logging
begin

text \<open>
  Packet capture and injection (\<^verbatim>\<open>internal/capture/capture.go\<close>): interface lookup, MAC parsing,
  opening and filtering a pcap handle, reading and writing frames, and the decoding of Ethernet
  headers for the log. The pcap library is outside the sources: its operations are the fields of a
  parameter record, over abstract types of inactive and active handles.
\<close>

section \<open>The pcap library as a parameter\<close>

record pcap_device =
  dev_Name :: string
  dev_Description :: string
  dev_Addresses :: "bytes option list"

record ('i, 'h) pcap =
  pcap_Version :: string
  FindAllDevs :: "pcap_device list option"
  NewInactiveHandle :: "string \<Rightarrow> 'i option"
  SetSnapLen :: "nat \<Rightarrow> 'i \<Rightarrow> 'i option"
  SetPromisc :: "bool \<Rightarrow> 'i \<Rightarrow> 'i option"
  SetTimeout :: "int \<Rightarrow> 'i \<Rightarrow> 'i option"
  SetBufferSize :: "nat \<Rightarrow> 'i \<Rightarrow> 'i"
  Activate :: "'i \<Rightarrow> 'h option"
  SetBPFFilter :: "string \<Rightarrow> 'h \<Rightarrow> 'h option"

text \<open>The calls that acquire and release resources, as a trace.\<close>

datatype pcap_call =
    InactiveOpened string
  | InactiveCleanedUp
  | HandleActivated
  | FilterRequested string
  | HandleClosed

section \<open>Data\<close>

definition SnapLen :: nat where "SnapLen = 65536"
definition ReadTimeout :: int where "ReadTimeout = 10 * 1000000"
definition BufferSize :: nat where "BufferSize = 2 * 1024 * 1024"

datatype capture_error =
    ErrNpcapNotInstalled
  | ErrInterfaceNotFound string
  | ErrInvalidMAC
  | ListFailed
  | LoggerMissing
  | InactiveFailed
  | SnapLenFailed
  | PromiscFailed
  | TimeoutFailed
  | ActivateFailed
  | FilterFailed
  | FrameBelowHeader nat
  | PcapFailed
  | CaptureNotOpen

record InterfaceInfo =
  Name :: string
  Description :: string
  Addresses :: "string list"
  Flags :: string

record 'h Capture =
  handle :: "'h option"
  xboxMAC :: HardwareAddr
  ifName :: string

record CaptureConfig =
  cap_Interface :: string
  cap_XboxMAC :: HardwareAddr
  cap_Logger :: bool

section \<open>Platform support\<close>

definition CheckNpcapInstalled :: "string \<Rightarrow> ('i, 'h) pcap \<Rightarrow> capture_error option" where
  "CheckNpcapInstalled goos p =
     (if goos \<noteq> ''windows'' then None
      else if pcap_Version p = [] then Some ErrNpcapNotInstalled
      else None)"

definition help_lines :: "string list \<Rightarrow> string" where
  "help_lines ls = Join ls [newline]"

definition NpcapInstallHelp :: "string \<Rightarrow> string" where
  \<open>NpcapInstallHelp goos =
     (if goos = ''windows'' then help_lines
        [''Npcap is required for packet capture on Windows.'',
         '''',
         ''To install Npcap:'',
         ''1. Download from https://npcap.com/'',
         ''2. Run the installer'',
         ''3. IMPORTANT: Check "Install Npcap in WinPcap API-compatible Mode"'',
         ''4. Restart this application'',
         '''',
         ''If you have Npcap installed but still see this error:'',
         ''- Make sure you installed with WinPcap compatibility mode'',
         ''- Try running this application as Administrator'']
      else if goos = ''darwin'' then help_lines
        [''Packet capture requires root privileges on macOS.'',
         '''',
         ''Try running with sudo:'',
         ''  sudo xbslink-ng [command] [flags]'',
         '''',
         ''If you see "Operation not permitted", ensure your terminal has '',
         ''Full Disk Access in System Preferences > Privacy & Security.'']
      else if goos = ''linux'' then help_lines
        [''Packet capture requires either root privileges or the pcap capability.'',
         '''',
         ''Option 1: Run with sudo:'',
         ''  sudo xbslink-ng [command] [flags]'',
         '''',
         ''Option 2: Add pcap capability to the binary:'',
         ''  sudo setcap cap_net_raw,cap_net_admin=eip /path/to/xbslink-ng'',
         '''',
         ''Option 3: Add your user to the pcap group:'',
         ''  sudo usermod -a -G pcap $USER'',
         ''  (Log out and back in for this to take effect)'',
         '''',
         ''If libpcap is not installed:'',
         ''  Debian/Ubuntu: sudo apt install libpcap-dev'',
         ''  Fedora/RHEL:   sudo dnf install libpcap-devel'',
         ''  Arch:          sudo pacman -S libpcap'']
      else ''Ensure libpcap is installed and you have permission to capture packets.'')\<close>

section \<open>Interfaces\<close>

definition interface_info :: "pcap_device \<Rightarrow> InterfaceInfo" where
  "interface_info dev =
     \<lparr>Name = dev_Name dev, Description = dev_Description dev,
      Addresses = map IP_String (concat (map (\<lambda>a. case a of None \<Rightarrow> [] | Some ip \<Rightarrow> [ip]) (dev_Addresses dev))),
      Flags = Join (if dev_Addresses dev \<noteq> [] then [''UP''] else []) '',''\<rparr>"

definition ListInterfaces :: "string \<Rightarrow> ('i, 'h) pcap \<Rightarrow> capture_error + InterfaceInfo list" where
  "ListInterfaces goos p =
     (case CheckNpcapInstalled goos p of
        Some e \<Rightarrow> Inl e
      | None \<Rightarrow> (case FindAllDevs p of None \<Rightarrow> Inl ListFailed
                 | Some devs \<Rightarrow> Inr (map interface_info devs)))"

text \<open>The three searches over a list of things with a name and a description, in order.\<close>

definition FindInterface :: "string \<Rightarrow> ('i, 'h) pcap \<Rightarrow> string \<Rightarrow> capture_error + InterfaceInfo" where
  "FindInterface goos p name =
     (case ListInterfaces goos p of
        Inl e \<Rightarrow> Inl e
      | Inr interfaces \<Rightarrow>
          (case find (\<lambda>i. Name i = name) interfaces of
             Some i \<Rightarrow> Inr i
           | None \<Rightarrow>
               (let nameLower = ToLower name in
                case find (\<lambda>i. ToLower (Name i) = nameLower) interfaces of
                  Some i \<Rightarrow> Inr i
                | None \<Rightarrow>
                    (case find (\<lambda>i. Contains (ToLower (Description i)) nameLower) interfaces of
                       Some i \<Rightarrow> Inr i
                     | None \<Rightarrow> Inl (ErrInterfaceNotFound name)))))"

definition ParseMAC :: "string \<Rightarrow> capture_error + HardwareAddr" where
  "ParseMAC s =
     (case net_ParseMAC (ReplaceAll_char (CHR ''-'') (CHR '':'') s) of
        None \<Rightarrow> Inl ErrInvalidMAC
      | Some mac \<Rightarrow> if length mac \<noteq> 6 then Inl ErrInvalidMAC else Inr mac)"

section \<open>Opening a capture\<close>

definition bpf_filter :: "HardwareAddr \<Rightarrow> string" where
  "bpf_filter mac = ''ether src '' @ HardwareAddr_String mac"

text \<open>The configuration of the inactive handle, in the source's order.\<close>

definition configure :: "('i, 'h) pcap \<Rightarrow> 'i \<Rightarrow> capture_error + 'i" where
  "configure p i0 =
     (case SetSnapLen p SnapLen i0 of None \<Rightarrow> Inl SnapLenFailed
      | Some i1 \<Rightarrow> (case SetPromisc p True i1 of None \<Rightarrow> Inl PromiscFailed
        | Some i2 \<Rightarrow> (case SetTimeout p ReadTimeout i2 of None \<Rightarrow> Inl TimeoutFailed
          | Some i3 \<Rightarrow> Inr (SetBufferSize p BufferSize i3))))"

text \<open>Result and trace; the deferred clean-up of the inactive handle comes last.\<close>

definition Capture_New ::
    "string \<Rightarrow> ('i, 'h) pcap \<Rightarrow> CaptureConfig \<Rightarrow> (capture_error + 'h Capture) \<times> pcap_call list" where
  "Capture_New goos p cfg =
     (if \<not> cap_Logger cfg then (Inl LoggerMissing, [])
      else if length (cap_XboxMAC cfg) \<noteq> 6 then (Inl ErrInvalidMAC, [])
      else case CheckNpcapInstalled goos p of
        Some e \<Rightarrow> (Inl e, [])
      | None \<Rightarrow>
          (case FindInterface goos p (cap_Interface cfg) of
             Inl e \<Rightarrow> (Inl e, [])
           | Inr iface \<Rightarrow>
               (case NewInactiveHandle p (Name iface) of
                  None \<Rightarrow> (Inl InactiveFailed, [])
                | Some i0 \<Rightarrow>
                    (case configure p i0 of
                       Inl e \<Rightarrow> (Inl e, [InactiveOpened (Name iface), InactiveCleanedUp])
                     | Inr i1 \<Rightarrow>
                         (case Activate p i1 of
                            None \<Rightarrow> (Inl ActivateFailed, [InactiveOpened (Name iface), InactiveCleanedUp])
                          | Some h0 \<Rightarrow>
                              (let filter = bpf_filter (cap_XboxMAC cfg) in
                               case SetBPFFilter p filter h0 of
                                 None \<Rightarrow> (Inl FilterFailed,
                                   [InactiveOpened (Name iface), HandleActivated, FilterRequested filter,
                                    HandleClosed, InactiveCleanedUp])
                               | Some h1 \<Rightarrow>
                                   (Inr \<lparr>handle = Some h1, xboxMAC = cap_XboxMAC cfg, ifName = Name iface\<rparr>,
                                    [InactiveOpened (Name iface), HandleActivated, FilterRequested filter,
                                     InactiveCleanedUp])))))))"

section \<open>Frames\<close>

datatype pcap_error = NextErrorTimeoutExpired | OtherPcapError

text \<open>
  \<open>rd\<close> is \<^verbatim>\<open>ZeroCopyReadPacketData\<close> and \<open>wr\<close> is \<^verbatim>\<open>WritePacketData\<close>, called with whatever the
  handle field holds; the data is copied before it is returned. The result \<^const>\<open>None\<close> inside
  \<^const>\<open>Ret\<close> is a nil frame.
\<close>

definition ReadPacket ::
    "('h option \<Rightarrow> (pcap_error, bytes) outcome) \<Rightarrow> 'h Capture \<Rightarrow> (pcap_error, bytes option) outcome" where
  "ReadPacket rd c =
     (case rd (handle c) of
        Err NextErrorTimeoutExpired \<Rightarrow> Ret None
      | Err e \<Rightarrow> Err e
      | Panic \<Rightarrow> Panic
      | Ret data \<Rightarrow> if length data = 0 then Ret None else Ret (Some data))"

definition WritePacket ::
    "('h option \<Rightarrow> bytes \<Rightarrow> (capture_error, unit) outcome) \<Rightarrow> 'h Capture \<Rightarrow> bytes \<Rightarrow>
     (capture_error, unit) outcome" where
  "WritePacket wr c frame =
     (if length frame < 14 then Err (FrameBelowHeader (length frame)) else wr (handle c) frame)"

definition Capture_Close :: "'h Capture \<Rightarrow> 'h Capture \<times> pcap_call list" where
  "Capture_Close c =
     (case handle c of None \<Rightarrow> (c, []) | Some h \<Rightarrow> (c\<lparr>handle := None\<rparr>, [HandleClosed]))"

definition Capture_Stats :: "('h \<Rightarrow> 'st option) \<Rightarrow> 'h Capture \<Rightarrow> capture_error + 'st" where
  "Capture_Stats st c =
     (case handle c of None \<Rightarrow> Inl CaptureNotOpen
      | Some h \<Rightarrow> (case st h of None \<Rightarrow> Inl PcapFailed | Some v \<Rightarrow> Inr v))"

definition InterfaceName :: "'h Capture \<Rightarrow> string" where
  "InterfaceName c = ifName c"

definition XboxMAC :: "'h Capture \<Rightarrow> HardwareAddr" where
  "XboxMAC c = xboxMAC c"

definition format_interface :: "nat \<Rightarrow> InterfaceInfo \<Rightarrow> string" where
  "format_interface i iface =
     ''  '' @ fmt_d (i + 1) @ ''. '' @ Name iface @ [newline] @
     (if Description iface \<noteq> [] then ''     Description: '' @ Description iface @ [newline] else []) @
     (if Addresses iface \<noteq> [] then ''     Addresses:   '' @ Join (Addresses iface) '', '' @ [newline] else []) @
     [newline]"

definition FormatInterfaceList :: "InterfaceInfo list \<Rightarrow> string" where
  "FormatInterfaceList interfaces =
     ''Available network interfaces:'' @ [newline, newline] @
     concat (map (\<lambda>(i, iface). format_interface i iface) (enumerate 0 interfaces))"

text \<open>Source, destination and type; nil addresses are empty.\<close>

definition DecodeEthernetFrame :: "bytes \<Rightarrow> (unit, HardwareAddr \<times> HardwareAddr \<times> uint16) outcome" where
  "DecodeEthernetFrame frame =
     (if length frame < 14 then Ret ([], [], 0)
      else case (go_slice 0 6 frame, go_slice 6 12 frame, go_index frame 12, go_index frame 13) of
        (Some dst, Some src, Some hi, Some lo) \<Rightarrow> Ret (src, dst, push_bit 8 (ucast hi) OR ucast lo)
      | _ \<Rightarrow> Panic)"

text \<open>The EtherType constants of the layers package are a parameter.\<close>

record ether_types =
  EthernetTypeIPv4 :: uint16
  EthernetTypeIPv6 :: uint16
  EthernetTypeARP :: uint16

definition EtherTypeName :: "ether_types \<Rightarrow> uint16 \<Rightarrow> string" where
  "EtherTypeName et etherType =
     (if etherType = EthernetTypeIPv4 et then ''IPv4''
      else if etherType = EthernetTypeIPv6 et then ''IPv6''
      else if etherType = EthernetTypeARP et then ''ARP''
      else ''0x'' @ fmt_04X etherType)"

section \<open>MAC addresses\<close>

lemma dash_not_hex: "digit_char d = CHR ''-'' \<Longrightarrow> d < 16 \<Longrightarrow> False"
  by (auto simp: digit_char_def char_of_eq_iff take_bit_nat_eq_self split: if_splits)

lemma ReplaceAll_02x: "ReplaceAll_char (CHR ''-'') new (fmt_02x b) = fmt_02x b"
proof -
  have "unat b < 256" using unsigned_less [of b, where 'a = nat] by simp
  then have "unat b div 16 < 16" "unat b mod 16 < 16" by auto
  then show ?thesis by (auto simp: ReplaceAll_char_def fmt_02x_def dest: dash_not_hex)
qed

lemma ReplaceAll_append: "ReplaceAll_char x y (s @ t) = ReplaceAll_char x y s @ ReplaceAll_char x y t"
  by (simp add: ReplaceAll_char_def)

lemma ReplaceAll_mac:
  assumes "sep = CHR '':'' \<or> sep = CHR ''-''"
  shows "ReplaceAll_char (CHR ''-'') (CHR '':'') (Join (map fmt_02x m) [sep]) = Join (map fmt_02x m) '':''"
proof (induction m rule: induct_list012)
  case 1
  then show ?case by (simp add: ReplaceAll_char_def)
next
  case (2 x)
  then show ?case by (simp add: ReplaceAll_02x)
next
  case (3 x y zs)
  have "ReplaceAll_char (CHR ''-'') (CHR '':'') [sep] = '':''" using assms by (auto simp: ReplaceAll_char_def)
  with 3 show ?case using ReplaceAll_append [of "CHR ''-''" "CHR '':''" "[sep]"]
    by (simp add: ReplaceAll_append ReplaceAll_02x)
qed

text \<open>
  \<^verbatim>\<open>ParseMAC\<close> inverts printing: the two-digit lower-case form of a six-byte address parses to
  that address with colons and with dashes, and every address it accepts has six bytes.
\<close>

lemma ParseMAC_roundtrip:
  "(length mac = 6 \<longrightarrow>
      ParseMAC (HardwareAddr_String mac) = Inr mac \<and> ParseMAC (Join (map fmt_02x mac) ''-'') = Inr mac) \<and>
   (ParseMAC s = Inr m \<longrightarrow> length m = 6)"
proof -
  have "ParseMAC (Join (map fmt_02x mac) [sep]) = Inr mac"
    if "length mac = 6" and "sep = CHR '':'' \<or> sep = CHR ''-''" for sep
    using net_ParseMAC_String [of mac] that ReplaceAll_mac [OF that(2), of mac]
    by (simp add: ParseMAC_def HardwareAddr_String_def)
  moreover have "length m = 6" if "ParseMAC s = Inr m"
    using that by (auto simp: ParseMAC_def split: option.splits if_splits)
  ultimately show ?thesis by (auto simp: HardwareAddr_String_def)
qed

section \<open>Interface lookup\<close>

text \<open>How well an interface fits a name: the smaller the better, three when it does not fit.\<close>

definition match_rank :: "string \<Rightarrow> string \<Rightarrow> string \<Rightarrow> nat" where
  "match_rank name n descr =
     (if n = name then 0
      else if ToLower n = ToLower name then 1
      else if Contains (ToLower descr) (ToLower name) then 2
      else 3)"

lemma find_first:
  "find P xs = Some x \<Longrightarrow> \<exists>ys zs. xs = ys @ x # zs \<and> P x \<and> (\<forall>y \<in> set ys. \<not> P y)"
proof (induction xs)
  case Nil
  then show ?case by simp
next
  case (Cons a xs)
  show ?case
  proof (cases "P a")
    case True
    with Cons.prems show ?thesis by (intro exI [of _ "[]"] exI [of _ xs]) simp
  next
    case False
    with Cons obtain ys zs where "xs = ys @ x # zs" "P x" "\<forall>y \<in> set ys. \<not> P y" by auto
    with False show ?thesis by (intro exI [of _ "a # ys"] exI [of _ zs]) simp
  qed
qed

text \<open>The best match: the first of the least rank, if some rank is below three.\<close>

definition best_match :: "('a \<Rightarrow> nat) \<Rightarrow> 'a list \<Rightarrow> 'a \<Rightarrow> bool" where
  "best_match r xs x \<longleftrightarrow> r x < 3 \<and> (\<forall>y \<in> set xs. r x \<le> r y) \<and>
     (\<exists>ys zs. xs = ys @ x # zs \<and> (\<forall>y \<in> set ys. r y \<noteq> r x))"

text \<open>Searching for rank zero, then one, then two finds the best match.\<close>

definition find_ranked :: "('a \<Rightarrow> nat) \<Rightarrow> 'a list \<Rightarrow> 'a option" where
  "find_ranked r xs =
     (case find (\<lambda>x. r x = 0) xs of Some x \<Rightarrow> Some x
      | None \<Rightarrow> (case find (\<lambda>x. r x \<le> 1) xs of Some x \<Rightarrow> Some x
        | None \<Rightarrow> find (\<lambda>x. r x \<le> 2) xs))"

lemma best_matchI:
  assumes "xs = ys @ x # zs" and "r x \<le> k" and "k < 3" and "\<forall>y \<in> set xs. k \<le> r y"
    and "\<forall>y \<in> set ys. \<not> r y \<le> k"
  shows "best_match r xs x"
proof -
  have k: "r x = k" using assms(1,2,4) by auto
  then have "\<forall>y \<in> set ys. r y \<noteq> r x" using assms(5) by auto
  then show ?thesis using assms(1,3,4) k unfolding best_match_def by blast
qed

lemma find_ranked_best:
  "(case find_ranked r xs of Some x \<Rightarrow> best_match r xs x | None \<Rightarrow> \<forall>y \<in> set xs. 3 \<le> r y)"
proof (cases "find (\<lambda>x. r x = 0) xs")
  case (Some x)
  then obtain ys zs where "xs = ys @ x # zs" "r x = 0" "\<forall>y \<in> set ys. r y \<noteq> 0"
    by (auto dest!: find_first)
  then have "best_match r xs x" by (intro best_matchI [of xs ys x zs r 0]) simp_all
  with Some show ?thesis by (simp add: find_ranked_def)
next
  case None
  then have pos: "\<forall>y \<in> set xs. 1 \<le> r y" by (simp add: find_None_iff Suc_le_eq)
  show ?thesis
  proof (cases "find (\<lambda>x. r x \<le> 1) xs")
    case (Some x)
    then obtain ys zs where "xs = ys @ x # zs" "r x \<le> 1" "\<forall>y \<in> set ys. \<not> r y \<le> 1"
      by (auto dest!: find_first)
    then have "best_match r xs x"
      using pos best_matchI [of xs ys x zs r 1] by (simp only:)
    with None Some show ?thesis by (simp add: find_ranked_def)
  next
    case n1: None
    then have pos1: "\<forall>y \<in> set xs. 2 \<le> r y" by (auto simp: find_None_iff not_le)
    show ?thesis
    proof (cases "find (\<lambda>x. r x \<le> 2) xs")
      case (Some x)
      then obtain ys zs where "xs = ys @ x # zs" "r x \<le> 2" "\<forall>y \<in> set ys. \<not> r y \<le> 2"
        by (auto dest!: find_first)
      then have "best_match r xs x" using pos1 by (intro best_matchI [of xs ys x zs r 2]) simp_all
      with None n1 Some show ?thesis by (simp add: find_ranked_def)
    next
      case n2: None
      then have "\<forall>y \<in> set xs. 2 < r y" by (auto simp: find_None_iff not_le)
      then have "\<forall>y \<in> set xs. 3 \<le> r y" by auto
      with None n1 n2 show ?thesis by (simp add: find_ranked_def)
    qed
  qed
qed

lemma find_cong_none:
  "\<forall>x \<in> set xs. P x = Q x \<Longrightarrow> find P xs = find Q xs"
  by (induction xs) auto

text \<open>The three searches of the program are that ranked search.\<close>

lemma three_searches:
  fixes nm ds :: "'a \<Rightarrow> string" and name :: string
  defines "r \<equiv> \<lambda>x. match_rank name (nm x) (ds x)"
  shows "(case find (\<lambda>x. nm x = name) xs of Some x \<Rightarrow> Some x
      | None \<Rightarrow> (case find (\<lambda>x. ToLower (nm x) = ToLower name) xs of Some x \<Rightarrow> Some x
        | None \<Rightarrow> find (\<lambda>x. Contains (ToLower (ds x)) (ToLower name)) xs)) = find_ranked r xs"
proof -
  have "find (\<lambda>x. nm x = name) xs = find (\<lambda>x. r x = 0) xs"
    by (rule find_cong_none) (auto simp: r_def match_rank_def)
  moreover have "find (\<lambda>x. ToLower (nm x) = ToLower name) xs = find (\<lambda>x. r x \<le> 1) xs"
    by (rule find_cong_none) (auto simp: r_def match_rank_def)
  moreover have "find (\<lambda>x. Contains (ToLower (ds x)) (ToLower name)) xs = find (\<lambda>x. r x \<le> 2) xs"
    if "find (\<lambda>x. r x \<le> 1) xs = None"
    by (rule find_cong_none) (use that in \<open>auto simp: find_None_iff r_def match_rank_def split: if_splits\<close>)
  ultimately show ?thesis by (simp add: find_ranked_def split: option.splits)
qed

lemma FindInterface_ranked:
  "ListInterfaces goos p = Inr is \<Longrightarrow>
   FindInterface goos p name =
     (case find_ranked (\<lambda>i. match_rank name (Name i) (Description i)) is of
        Some i \<Rightarrow> Inr i | None \<Rightarrow> Inl (ErrInterfaceNotFound name))"
  unfolding three_searches [where nm = Name and ds = Description, symmetric]
  by (auto simp: FindInterface_def Let_def split: option.splits)

text \<open>
  C35. \<^verbatim>\<open>FindInterface\<close> returns the best match and nothing else: an exact name wins over a name
  that differs in case, which wins over a description that contains the name; within one kind the
  first listed wins; the not-found error means that no interface matches in any of the three ways.
\<close>

theorem FindInterface_best:
  assumes "ListInterfaces goos p = Inr is"
  shows "case FindInterface goos p name of
      Inr i \<Rightarrow> best_match (\<lambda>i. match_rank name (Name i) (Description i)) is i
    | Inl e \<Rightarrow> e = ErrInterfaceNotFound name \<and> (\<forall>i \<in> set is. match_rank name (Name i) (Description i) = 3)"
proof -
  let ?r = "\<lambda>i. match_rank name (Name i) (Description i)"
  have le: "?r i \<le> 3" for i by (simp add: match_rank_def)
  show ?thesis
    using find_ranked_best [where r = ?r and xs = "is"] le
    by (auto simp: FindInterface_ranked [OF assms] intro: antisym split: option.splits)
qed

definition sample_pcap :: "(unit, unit) pcap" where
  "sample_pcap =
     \<lparr>pcap_Version = ''libpcap'',
      FindAllDevs = Some [\<lparr>dev_Name = ''lo'', dev_Description = [], dev_Addresses = []\<rparr>,
                          \<lparr>dev_Name = ''ETH0'', dev_Description = [], dev_Addresses = []\<rparr>,
                          \<lparr>dev_Name = ''eth0'', dev_Description = [], dev_Addresses = []\<rparr>],
      NewInactiveHandle = (\<lambda>n. Some ()), SetSnapLen = (\<lambda>n i. Some i), SetPromisc = (\<lambda>b i. Some i),
      SetTimeout = (\<lambda>t i. Some i), SetBufferSize = (\<lambda>n i. i), Activate = (\<lambda>i. Some ()),
      SetBPFFilter = (\<lambda>f h. Some h)\<rparr>"

lemma sample_pcap_list:
  "ListInterfaces ''linux'' sample_pcap =
     Inr (map interface_info (the (FindAllDevs sample_pcap)))"
  by (simp add: ListInterfaces_def CheckNpcapInstalled_def sample_pcap_def)

theorem FindInterface_best_witness:
  "\<exists>i. FindInterface ''linux'' sample_pcap ''eth0'' = Inr i \<and> match_rank ''eth0'' (Name i) (Description i) = 0"
proof -
  let ?is = "map interface_info (the (FindAllDevs sample_pcap))"
  let ?i = "interface_info \<lparr>dev_Name = ''eth0'', dev_Description = [], dev_Addresses = []\<rparr>"
  let ?r = "\<lambda>i. match_rank ''eth0'' (Name i) (Description i)"
  have m: "?i \<in> set ?is" by (simp add: sample_pcap_def)
  have z: "?r ?i = 0" by (simp add: match_rank_def interface_info_def)
  note best = FindInterface_best [OF sample_pcap_list, of "''eth0''"]
  show ?thesis
  proof (cases "FindInterface ''linux'' sample_pcap ''eth0''")
    case (Inl e)
    with best have "\<forall>i \<in> set ?is. ?r i = 3" by simp
    with m have "?r ?i = 3" by (rule bspec [rotated])
    with z show ?thesis by simp
  next
    case (Inr i)
    with best have "\<forall>y \<in> set ?is. ?r i \<le> ?r y" by (simp only: best_match_def sum.case) blast
    with m have "?r i \<le> ?r ?i" by (rule bspec [rotated])
    with z Inr show ?thesis by (intro exI [of _ i]) (simp only: le_zero_eq)
  qed
qed

section \<open>Opening\<close>

text \<open>
  C34. Opening a capture releases what it acquired and filters what it captures: every opened
  inactive handle is cleaned up last; when \<^verbatim>\<open>New\<close> fails after activation the handle has been
  closed, and when it succeeds the returned handle is open, carries the filter for exactly the
  configured six-byte MAC and has not been closed.
\<close>

theorem Capture_New_safe:
  "case Capture_New goos p cfg of
     (Inl e, tr) \<Rightarrow>
       (HandleActivated \<in> set tr \<longrightarrow> HandleClosed \<in> set tr) \<and> (tr = [] \<or> last tr = InactiveCleanedUp)
   | (Inr c, tr) \<Rightarrow>
       length (cap_XboxMAC cfg) = 6 \<and> xboxMAC c = cap_XboxMAC cfg \<and>
       (\<exists>h0 h1. handle c = Some h1 \<and> SetBPFFilter p (''ether src '' @ HardwareAddr_String (cap_XboxMAC cfg)) h0 = Some h1) \<and>
       HandleClosed \<notin> set tr \<and> last tr = InactiveCleanedUp"
  by (auto simp: Capture_New_def Let_def bpf_filter_def split: option.splits sum.splits)

theorem Capture_New_safe_witness:
  "HandleClosed \<in> set (snd (Capture_New ''linux'' (sample_pcap\<lparr>SetBPFFilter := \<lambda>f h. None\<rparr>)
      \<lparr>cap_Interface = ''lo'', cap_XboxMAC = replicate 6 2, cap_Logger = True\<rparr>))"
proof -
  let ?p = "sample_pcap\<lparr>SetBPFFilter := \<lambda>f h. None\<rparr>"
  let ?cfg = "\<lparr>cap_Interface = ''lo'', cap_XboxMAC = replicate 6 2, cap_Logger = True\<rparr> :: CaptureConfig"
  have "fst (Capture_New ''linux'' ?p ?cfg) = Inl FilterFailed \<and>
      HandleActivated \<in> set (snd (Capture_New ''linux'' ?p ?cfg))"
    by (simp add: Capture_New_def CheckNpcapInstalled_def FindInterface_def ListInterfaces_def
        sample_pcap_def interface_info_def configure_def Let_def)
  then show ?thesis using Capture_New_safe [where goos = "''linux''" and p = ?p and cfg = ?cfg] by (auto split: prod.splits)
qed

section \<open>Frames\<close>

lemma DecodeEthernetFrame_no_panic: "DecodeEthernetFrame frame \<noteq> Panic"
  by (auto simp: DecodeEthernetFrame_def go_slice_def go_index_def)

lemma ether_type_bytes: "push_bit 8 (ucast hi :: uint16) OR ucast lo = Uint16 [hi, lo]" for hi lo :: byte
proof -
  have a: "push_bit 8 (ucast hi :: uint16) OR ucast lo = push_bit 8 (ucast hi) + ucast lo"
    by (rule disjunctive_add [symmetric]) (auto simp: bit_push_bit_iff bit_ucast_iff dest: bit_imp_le_length)
  have b: "push_bit 8 (ucast hi :: uint16) = ucast hi * 256" by (simp add: push_bit_eq_mult)
  have c: "(ucast hi :: uint16) * 256 + ucast lo = word_of_int (256 * uint hi + uint lo)"
    by (simp only: ucast_eq of_int_add of_int_mult of_int_numeral mult.commute)
  show ?thesis by (subst a, subst b, subst c) (simp add: Uint16_def get_be_def)
qed

text \<open>
  Decoding an Ethernet header recovers what the frame was built from: destination, source and
  type of a frame \<open>dst @ src @ type @ payload\<close>; a frame shorter than a header decodes to nothing;
  no frame makes it panic.
\<close>

lemma DecodeEthernetFrame_header:
  "(length dst = 6 \<and> length src = 6 \<longrightarrow>
      DecodeEthernetFrame (dst @ src @ PutUint16 t @ payload) = Ret (src, dst, t)) \<and>
   (length frame < 14 \<longrightarrow> DecodeEthernetFrame frame = Ret ([], [], 0)) \<and>
   DecodeEthernetFrame frame \<noteq> Panic"
proof -
  have "DecodeEthernetFrame (dst @ src @ PutUint16 t @ payload) = Ret (src, dst, t)"
    if "length dst = 6" and "length src = 6"
  proof -
    obtain hi lo where t: "PutUint16 t = [hi, lo]"
      using length_PutUint16 [of t]
      by (auto simp: numeral_2_eq_2 length_Suc_conv simp del: length_PutUint16)
    have "Uint16 [hi, lo] = t" using Uint16_Put_Nil [of t] by (simp add: t)
    then show ?thesis using that
      by (simp add: DecodeEthernetFrame_def go_slice_def go_index_def t nth_append ether_type_bytes)
  qed
  then show ?thesis using DecodeEthernetFrame_no_panic by (auto simp: DecodeEthernetFrame_def)
qed

lemma ReadPacket_frame: "ReadPacket rd c = Ret (Some f) \<longleftrightarrow> rd (handle c) = Ret f \<and> f \<noteq> []"
  by (auto simp: ReadPacket_def split: outcome.splits pcap_error.splits if_splits)

lemma Capture_Close_handle [simp]: "handle (fst (Capture_Close c)) = None"
  by (simp add: Capture_Close_def split: option.splits)

end
