(* ===== verification/Bridge.thy ===== *)
theory Bridge
  imports Transport Events Bridge_Stats Capture
begin

text \<open>
  The bridge (\<^verbatim>\<open>internal/bridge/bridge.go\<close>): its state, its constructor, the message handlers,
  the body of every goroutine's loop and the two teardown sequences of \<^verbatim>\<open>Run\<close>, each as a
  function on the state. How the goroutines interleave is the subject of the theory built on top.

  The receive loop decodes in place: the payload of a frame message is a slice of the loop's one
  buffer, and that slice, not a copy, goes into the injection queue. The queue therefore holds
  references (offset and length) into the buffer, which is part of the state. Log lines are not
  part of the state.
\<close>

section \<open>Constants and states\<close>

definition PingInterval :: int where "PingInterval = 5 * 1000000000"
definition PongTimeout :: int where "PongTimeout = 2 * 1000000000"
definition MaxMissedPongs :: int where [simp]: "MaxMissedPongs = 3"
definition RTTAlertThreshold :: int where "RTTAlertThreshold = 30 * 1000000"
definition ChannelBufferSize :: nat where "ChannelBufferSize = 256"
definition recvBufSize :: nat where "recvBufSize = 65536"

datatype State = State int

definition StateDisconnected :: State where "StateDisconnected = State 0"
definition StateConnecting :: State where "StateConnecting = State 1"
definition StateConnected :: State where "StateConnected = State 2"

lemma State_distinct [simp]:
  "StateDisconnected \<noteq> StateConnecting" "StateConnecting \<noteq> StateDisconnected"
  "StateDisconnected \<noteq> StateConnected" "StateConnected \<noteq> StateDisconnected"
  "StateConnecting \<noteq> StateConnected" "StateConnected \<noteq> StateConnecting"
  by (simp_all add: StateDisconnected_def StateConnecting_def StateConnected_def)

definition State_String :: "State \<Rightarrow> string" where
  "State_String s =
     (if s = StateDisconnected then ''DISCONNECTED''
      else if s = StateConnecting then ''CONNECTING''
      else if s = StateConnected then ''CONNECTED''
      else ''UNKNOWN'')"

section \<open>State\<close>

text \<open>A slice of the receive buffer: offset and length.\<close>

type_synonym buf_ref = "nat \<times> nat"

record 'h Bridge =
  b_capture :: "'h Capture option"
  b_transport :: Transport
  b_codec :: Codec
  b_emitted :: "(EventType \<times> event_data) list"
  b_stats :: Stats
  b_mode :: Mode
  b_statsInterval :: duration
  b_state :: State
  framesToSend :: "bytes chan"
  framesToInject :: "buf_ref chan"
  b_done :: bool
  doneOnce :: bool
  pendingPing :: int64
  missedPongs :: "32 word"
  captureReady :: bool
  recvBuf :: bytes
  b_injected :: "bytes list"

datatype bridge_error = TransportRequired | BridgeCodecRequired | BridgeLoggerRequired

record 'h BridgeConfig =
  bc_Capture :: "'h Capture option"
  bc_Transport :: "Transport option"
  bc_Codec :: "Codec option"
  bc_Logger :: bool
  bc_Mode :: Mode
  bc_StatsInterval :: duration

text \<open>
  \<^verbatim>\<open>New\<close>. A missing emitter is the one that discards; either way the model keeps the sequence of
  events handed to it.
\<close>

definition Bridge_New :: "'h BridgeConfig \<Rightarrow> bridge_error + 'h Bridge" where
  "Bridge_New cfg =
     (case bc_Transport cfg of
        None \<Rightarrow> Inl TransportRequired
      | Some t \<Rightarrow>
          (case bc_Codec cfg of
             None \<Rightarrow> Inl BridgeCodecRequired
           | Some c \<Rightarrow>
               if \<not> bc_Logger cfg then Inl BridgeLoggerRequired
               else Inr
                 \<lparr>b_capture = bc_Capture cfg, b_transport = t, b_codec = c, b_emitted = [],
                  b_stats = new_Stats, b_mode = bc_Mode cfg, b_statsInterval = bc_StatsInterval cfg,
                  b_state = StateDisconnected, framesToSend = make_chan ChannelBufferSize,
                  framesToInject = make_chan ChannelBufferSize, b_done = False, doneOnce = False,
                  pendingPing = 0, missedPongs = 0, captureReady = (bc_Capture cfg \<noteq> None),
                  recvBuf = replicate recvBufSize 0, b_injected = []\<rparr>))"

datatype set_capture_error = CaptureAlreadySet

text \<open>\<^verbatim>\<open>SetCapture\<close>: the argument may be nil, and closing the ready channel a second time panics.\<close>

definition SetCapture :: "'h Capture option \<Rightarrow> 'h Bridge \<Rightarrow> (set_capture_error, 'h Bridge) outcome" where
  "SetCapture cap b =
     (if b_capture b \<noteq> None then Err CaptureAlreadySet
      else if captureReady b then Panic
      else Ret (b\<lparr>b_capture := cap, captureReady := True\<rparr>))"

definition HasCapture :: "'h Bridge \<Rightarrow> bool" where
  "HasCapture b \<longleftrightarrow> b_capture b \<noteq> None"

definition GetStats :: "'h Bridge \<Rightarrow> Stats" where
  "GetStats b = b_stats b"

section \<open>State changes and events\<close>

definition UDPAddr_String :: "UDPAddr \<Rightarrow> string" where
  "UDPAddr_String a =
     JoinHostPort (if IP a = [] then [] else IP_String (IP a))
       (if Port a < 0 then ''-'' @ fmt_d (nat (- Port a)) else fmt_d (nat (Port a)))"

definition emit :: "EventType \<Rightarrow> event_data \<Rightarrow> 'h Bridge \<Rightarrow> 'h Bridge" where
  "emit t d b = b\<lparr>b_emitted := b_emitted b @ [(t, d)]\<rparr>"

definition setState :: "State \<Rightarrow> 'h Bridge \<Rightarrow> 'h Bridge" where
  "setState s b =
     (let prev = b_state b; b1 = b\<lparr>b_state := s\<rparr> in
      if prev \<noteq> s then
        emit EventStateChanged
          (StateChangedData (State_String s)
             (if s = StateConnected
              then (case PeerAddr (b_transport b1) of None \<Rightarrow> [] | Some a \<Rightarrow> UDPAddr_String a)
              else []))
          b1
      else b1)"

definition ms_of :: "duration \<Rightarrow> float64" where
  "ms_of d = f64_div (f64_of_int (sint d)) (f64_of_int 1000000)"

text \<open>The statistics line and event; the line is the logger's business.\<close>

definition printStats :: "'h Bridge \<Rightarrow> 'h Bridge \<times> string" where
  "printStats b =
     (let s = b_stats b in
      (emit EventStats
         (StatsData (TxPackets s) (TxBytes s) (RxPackets s) (RxBytes s)
            (ms_of (GetRTTCurrent s)) (ms_of (RTTAvg s))) b,
       stats_message s))"

text \<open>Closing \<^verbatim>\<open>done\<close> under \<^verbatim>\<open>doneOnce\<close>, and the plain close.\<close>

definition closeDoneOnce :: "'h Bridge \<Rightarrow> (unit, 'h Bridge) outcome" where
  "closeDoneOnce b =
     (if doneOnce b then Ret b
      else if b_done b then Panic
      else Ret (b\<lparr>doneOnce := True, b_done := True\<rparr>))"

definition closeDone :: "'h Bridge \<Rightarrow> (unit, 'h Bridge) outcome" where
  "closeDone b = (if b_done b then Panic else Ret (b\<lparr>b_done := True\<rparr>))"

section \<open>Message handlers\<close>

definition handleFrame :: "buf_ref \<Rightarrow> 'h Bridge \<Rightarrow> 'h Bridge" where
  "handleFrame frame b =
     (let s = b_stats b;
          b1 = b\<lparr>b_stats := s\<lparr>RxPackets := RxPackets s + 1, RxBytes := RxBytes s + of_nat (snd frame)\<rparr>\<rparr>
      in b1\<lparr>framesToInject := fst (chan_try_send frame (framesToInject b1))\<rparr>)"

text \<open>Encoding takes the next nonce; sending happens after it, without a lock over both.\<close>

definition encodePong :: "int64 \<Rightarrow> 'h Bridge \<Rightarrow> 'h Bridge \<times> bytes" where
  "encodePong ts b =
     (let (c, pong) = EncodePong (b_codec b) ts in (b\<lparr>b_codec := c\<rparr>, pong))"

definition sendMsg :: "bool \<Rightarrow> bytes \<Rightarrow> 'h Bridge \<Rightarrow> 'h Bridge \<times> bool" where
  "sendMsg ok m b =
     (let (t, e) = Send ok (b_transport b) m in (b\<lparr>b_transport := t\<rparr>, e = None))"

definition handlePing :: "bool \<Rightarrow> int64 \<Rightarrow> 'h Bridge \<Rightarrow> 'h Bridge" where
  "handlePing ok ts b =
     (let (b1, pong) = encodePong ts b in fst (sendMsg ok pong b1))"

definition handlePong :: "int64 \<Rightarrow> int64 \<Rightarrow> 'h Bridge \<Rightarrow> 'h Bridge" where
  "handlePong now ts b =
     (if pendingPing b = 0 then b
      else if ts \<noteq> pendingPing b then b
      else
        let rtt = now - ts;
            b1 = b\<lparr>pendingPing := 0, missedPongs := 0\<rparr>;
            previousRTT = GetRTTCurrent (b_stats b1);
            s = AddRTTSample rtt (SetLastRTT previousRTT (b_stats b1));
            isSpike = fst (CheckRTTSpike s);
            exceedsThreshold = (RTTAlertThreshold < sint rtt)
        in emit EventLatency (LatencyData (ms_of rtt) isSpike exceedsThreshold) (b1\<lparr>b_stats := s\<rparr>))"

definition handleBye :: "'h Bridge \<Rightarrow> (unit, 'h Bridge) outcome" where
  "handleBye b = closeDoneOnce (setState StateDisconnected b)"

section \<open>Ping\<close>

definition unresponsive_message :: "32 word \<Rightarrow> string" where
  "unresponsive_message missed =
     ''peer unresponsive (missed '' @ fmt_d (nat (sint missed)) @ '' pongs)''"

text \<open>
  The locked part of \<^verbatim>\<open>sendPing\<close>: either the peer is given up, or the new ping is pending and its
  ts is returned for encoding.
\<close>

definition sendPing_lock :: "int64 \<Rightarrow> 'h Bridge \<Rightarrow> (unit, 'h Bridge \<times> int64 option) outcome" where
  "sendPing_lock now b =
     (let missed = missedPongs b + 1;
          b1 = (if pendingPing b \<noteq> 0 then b\<lparr>missedPongs := missed\<rparr> else b)
      in if pendingPing b \<noteq> 0 \<and> MaxMissedPongs \<le> sint missed
         then
           (case closeDoneOnce
               (setState StateDisconnected
                 (emit EventError (ErrorData (unresponsive_message missed)) b1)) of
              Ret b2 \<Rightarrow> Ret (b2, None)
            | Err e \<Rightarrow> Err e
            | Panic \<Rightarrow> Panic)
         else Ret (b1\<lparr>pendingPing := now\<rparr>, Some now))"

definition encodePing :: "int64 \<Rightarrow> 'h Bridge \<Rightarrow> 'h Bridge \<times> bytes" where
  "encodePing ts b =
     (let (c, ping) = EncodePing (b_codec b) ts in (b\<lparr>b_codec := c\<rparr>, ping))"

definition sendPing :: "int64 \<Rightarrow> bool \<Rightarrow> 'h Bridge \<Rightarrow> (unit, 'h Bridge) outcome" where
  "sendPing now ok b =
     (case sendPing_lock now b of
        Ret (b1, None) \<Rightarrow> Ret b1
      | Ret (b1, Some ts) \<Rightarrow>
          (let (b2, ping) = encodePing ts b1 in Ret (fst (sendMsg ok ping b2)))
      | Err e \<Rightarrow> Err e
      | Panic \<Rightarrow> Panic)"

section \<open>Loop bodies\<close>

text \<open>
  One iteration of a goroutine leaves it running, ends it, or crashes the process. A blocked
  iteration is a running one that changes nothing.
\<close>

datatype 'b loop_out = Running 'b | Exited 'b | Crashed

text \<open>
  \<^verbatim>\<open>captureLoop\<close> after the capture is ready: \<open>rd\<close> is the pcap read. The frame returned by
  \<^verbatim>\<open>ReadPacket\<close> is a fresh copy.
\<close>

definition captureLoop_iter ::
    "bool \<Rightarrow> ('h option \<Rightarrow> (pcap_error, bytes) outcome) \<Rightarrow> 'h Bridge \<Rightarrow> 'h Bridge loop_out" where
  "captureLoop_iter ctx_done rd b =
     (if ctx_done then Exited b
      else case b_capture b of
        None \<Rightarrow> Exited b
      | Some cap \<Rightarrow>
          (case ReadPacket rd cap of
             Err e \<Rightarrow> Running b
           | Panic \<Rightarrow> Crashed
           | Ret None \<Rightarrow> Running b
           | Ret (Some frame) \<Rightarrow>
               Running (b\<lparr>framesToSend := fst (chan_try_send frame (framesToSend b))\<rparr>)))"

text \<open>\<^verbatim>\<open>sendLoop\<close> on a received frame: encoding, then sending, then the counters.\<close>

definition sendLoop_encode :: "bytes \<Rightarrow> 'h Bridge \<Rightarrow> 'h Bridge \<times> bytes option" where
  "sendLoop_encode frame b =
     (case EncodeFrame (b_codec b) frame of
        (c, Ret m) \<Rightarrow> (b\<lparr>b_codec := c\<rparr>, Some m)
      | (c, _) \<Rightarrow> (b\<lparr>b_codec := c\<rparr>, None))"

definition sendLoop_send :: "bool \<Rightarrow> bytes \<Rightarrow> nat \<Rightarrow> 'h Bridge \<Rightarrow> 'h Bridge" where
  "sendLoop_send ok m len b =
     (case sendMsg ok m b of
        (b1, False) \<Rightarrow> b1
      | (b1, True) \<Rightarrow>
          (let s = b_stats b1 in
           b1\<lparr>b_stats := s\<lparr>TxPackets := TxPackets s + 1, TxBytes := TxBytes s + of_nat len\<rparr>\<rparr>))"

definition sendLoop_iter :: "bool \<Rightarrow> bool \<Rightarrow> 'h Bridge \<Rightarrow> 'h Bridge loop_out" where
  "sendLoop_iter take_done ok b =
     (if take_done then Exited b
      else case chan_recv (framesToSend b) of
        None \<Rightarrow> Running b
      | Some (frame, ch) \<Rightarrow>
          (case sendLoop_encode frame (b\<lparr>framesToSend := ch\<rparr>) of
             (b1, None) \<Rightarrow> Running b1
           | (b1, Some m) \<Rightarrow> Running (sendLoop_send ok m (length frame) b1)))"

text \<open>
  \<^verbatim>\<open>recvLoop\<close>. The datagram is in the buffer before its sender is looked at. \<open>payload_ref\<close> is the
  slice \<^verbatim>\<open>decode\<close> returns as the payload.
\<close>

record recv_obs =
  r_read :: read_result
  r_done_after :: bool
  r_now :: int64
  r_write :: bool

definition fill_buf :: "bytes \<Rightarrow> bytes \<Rightarrow> bytes" where
  "fill_buf data buf = data @ drop (length data) buf"

definition payload_ref :: "Codec \<Rightarrow> bytes \<Rightarrow> buf_ref" where
  "payload_ref c data = (if secureMode c then (9, length data - 41) else (1, length data - 1))"

definition dispatch :: "recv_obs \<Rightarrow> buf_ref \<Rightarrow> Message \<Rightarrow> 'h Bridge \<Rightarrow> (unit, 'h Bridge) outcome" where
  "dispatch ob ref msg b =
     (if msgType msg = MsgFrame then Ret (handleFrame ref b)
      else if msgType msg = MsgPing then Ret (handlePing (r_write ob) (Timestamp msg) b)
      else if msgType msg = MsgPong then Ret (handlePong (r_now ob) (Timestamp msg) b)
      else if msgType msg = MsgBye then handleBye b
      else Ret b)"

definition recvLoop_decode :: "bytes \<Rightarrow> 'h Bridge \<Rightarrow> 'h Bridge \<times> (proto_error, Message) outcome" where
  "recvLoop_decode data b =
     (case Decode (b_codec b) data of (c, r) \<Rightarrow> (b\<lparr>b_codec := c\<rparr>, r))"

definition recvLoop_iter :: "bool \<Rightarrow> UDPAddr option \<Rightarrow> recv_obs \<Rightarrow> 'h Bridge \<Rightarrow> 'h Bridge loop_out" where
  "recvLoop_iter ctx_done peer ob b =
     (if ctx_done then Exited b
      else case Recv (r_read ob) (b_transport b) of
        RecvTimeout \<Rightarrow> Running b
      | RecvErrClosed \<Rightarrow> if r_done_after ob then Exited b else Running b
      | RecvFailed \<Rightarrow> if r_done_after ob then Exited b else Running b
      | Received packet addr \<Rightarrow>
          (let data = take recvBufSize packet; b1 = b\<lparr>recvBuf := fill_buf data (recvBuf b)\<rparr> in
           if peer \<noteq> None \<and> \<not> addrEqual (Some addr) peer then Running b1
           else case recvLoop_decode data b1 of
             (b2, Err e) \<Rightarrow> Running b2
           | (b2, Panic) \<Rightarrow> Crashed
           | (b2, Ret msg) \<Rightarrow>
               (case dispatch ob (payload_ref (b_codec b) data) msg b2 of
                  Ret b3 \<Rightarrow> Running b3
                | Err e \<Rightarrow> Running b2
                | Panic \<Rightarrow> Crashed)))"

text \<open>
  \<^verbatim>\<open>injectLoop\<close> after the capture is ready: the bytes injected are those the slice shows now.
\<close>

definition deref :: "bytes \<Rightarrow> buf_ref \<Rightarrow> bytes" where
  "deref buf r = take (snd r) (drop (fst r) buf)"

definition injectLoop_iter ::
    "bool \<Rightarrow> ('h option \<Rightarrow> bytes \<Rightarrow> (capture_error, unit) outcome) \<Rightarrow> 'h Bridge \<Rightarrow> 'h Bridge loop_out" where
  "injectLoop_iter take_done wr b =
     (if take_done then Exited b
      else case chan_recv (framesToInject b) of
        None \<Rightarrow> Running b
      | Some (ref, ch) \<Rightarrow>
          (let b1 = b\<lparr>framesToInject := ch\<rparr>; frame = deref (recvBuf b) ref in
           case b_capture b1 of
             None \<Rightarrow> Running b1
           | Some cap \<Rightarrow>
               (case WritePacket wr cap frame of
                  Panic \<Rightarrow> Crashed
                | Err e \<Rightarrow> Running b1
                | Ret u \<Rightarrow> Running (b1\<lparr>b_injected := b_injected b1 @ [frame]\<rparr>))))"

datatype tick = NoTick | Tick

definition pingLoop_iter :: "bool \<Rightarrow> tick \<Rightarrow> int64 \<Rightarrow> bool \<Rightarrow> 'h Bridge \<Rightarrow> 'h Bridge loop_out" where
  "pingLoop_iter take_done t now ok b =
     (if take_done then Exited b
      else case t of
        NoTick \<Rightarrow> Running b
      | Tick \<Rightarrow> (case sendPing now ok b of Ret b1 \<Rightarrow> Running b1 | Err e \<Rightarrow> Running b | Panic \<Rightarrow> Crashed))"

text \<open>\<^verbatim>\<open>statsLoop\<close>: a tick of the interval or a request from the standard-input monitor.\<close>

definition statsLoop_iter :: "bool \<Rightarrow> tick \<Rightarrow> bool \<Rightarrow> 'h Bridge \<Rightarrow> 'h Bridge loop_out \<times> string option" where
  "statsLoop_iter take_done t stdin_request b =
     (if take_done then (Exited b, None)
      else if t = Tick \<or> stdin_request
      then (case printStats b of (b1, line) \<Rightarrow> (Running b1, Some line))
      else (Running b, None))"

text \<open>
  \<^verbatim>\<open>stdinLoop\<close>: which bytes count as Enter, and when the request reaches the statistics loop. All
  three channels are unbuffered with non-blocking sends: a request is taken only by a loop that is
  waiting for it, and the statistics loop runs only when an interval is configured.
\<close>

definition is_enter :: "byte \<Rightarrow> bool" where
  "is_enter c \<longleftrightarrow> c = 10 \<or> c = 13"

definition stdin_request_taken :: "byte \<Rightarrow> bool \<Rightarrow> bool \<Rightarrow> 'h Bridge \<Rightarrow> bool" where
  "stdin_request_taken c monitor_waiting stats_waiting b \<longleftrightarrow>
     is_enter c \<and> monitor_waiting \<and> stats_waiting \<and> 0 < sint (b_statsInterval b)"

section \<open>Run: connecting and tearing down\<close>

datatype run_error = ConnectionFailed transport_error | ErrPeerDisconnected

text \<open>
  The connecting phase: \<^const>\<open>None\<close> while the handshake is waiting, \<open>Some None\<close> when the bridge is
  connected, \<open>Some (Some r)\<close> when \<^verbatim>\<open>Run\<close> returns \<open>r\<close> from it.
\<close>

record run_env =
  e_wait :: "wait_obs list"
  e_connect :: "connect_obs list"
  e_ctx_err :: bool

definition Run_handshake :: "run_env \<Rightarrow> 'h Bridge \<Rightarrow> tc \<times> transport_error option option" where
  "Run_handshake env b =
     (if b_mode b = ModeListen then WaitForPeer (e_wait env) (b_transport b) (b_codec b)
      else case Connect (e_connect env) (b_transport b) (b_codec b) of (s, delays, r) \<Rightarrow> (s, r))"

definition Run_connect :: "run_env \<Rightarrow> 'h Bridge \<Rightarrow> 'h Bridge \<times> run_error option option option" where
  "Run_connect env b =
     (let b1 = setState StateConnecting b in
      case Run_handshake env b1 of
        ((t, c), r) \<Rightarrow>
          (let b2 = b1\<lparr>b_transport := t, b_codec := c\<rparr> in
           case r of
             None \<Rightarrow> (b2, None)
           | Some (Some e) \<Rightarrow> (b2, Some (Some (if e_ctx_err env then None else Some (ConnectionFailed e))))
           | Some None \<Rightarrow> (setState StateConnected b2, Some None)))"

definition closeCapture :: "'h Bridge \<Rightarrow> 'h Bridge" where
  "closeCapture b = b\<lparr>b_capture := map_option (\<lambda>c. fst (Capture_Close c)) (b_capture b)\<rparr>"

definition closeTransport :: "'h Bridge \<Rightarrow> 'h Bridge" where
  "closeTransport b = b\<lparr>b_transport := Close (b_transport b)\<rparr>"

text \<open>Before the wait for the goroutines: after a peer disconnect, and at a shutdown.\<close>

definition teardown_peer :: "'h Bridge \<Rightarrow> 'h Bridge" where
  "teardown_peer b = closeCapture (closeTransport b)"

definition teardown_bye :: "bool \<Rightarrow> 'h Bridge \<Rightarrow> 'h Bridge" where
  "teardown_bye ok b =
     (case SendBye ok (b_transport b) (b_codec b) of
        ((t, c), e) \<Rightarrow> b\<lparr>b_transport := t, b_codec := c\<rparr>)"

definition teardown_shutdown :: "bool \<Rightarrow> 'h Bridge \<Rightarrow> (unit, 'h Bridge) outcome" where
  "teardown_shutdown ok b =
     (case closeDone (teardown_bye ok b) of
        Ret b1 \<Rightarrow> Ret (closeCapture (closeTransport b1))
      | Err e \<Rightarrow> Err e
      | Panic \<Rightarrow> Panic)"

end
