(* ===== verification/Bridge_Behaviour.thy ===== *)
theory Bridge_Behaviour
  imports Bridge
begin

text \<open>
  What the bridge's handlers and loop bodies do: a well-formedness invariant that every one of
  them keeps, the state events, the send path, the receive path with its shared buffer, and the
  ping and pong accounting.
\<close>

section \<open>The invariant\<close>

text \<open>The states announced by the state_changed events, in order.\<close>

definition state_events :: "'h Bridge \<Rightarrow> string list" where
  "state_events b =
     concat (map (\<lambda>e. case e of (t, StateChangedData s p) \<Rightarrow> [s] | _ \<Rightarrow> []) (b_emitted b))"

definition known_state :: "State \<Rightarrow> bool" where
  "known_state s \<longleftrightarrow> s \<in> {StateDisconnected, StateConnecting, StateConnected}"

text \<open>
  Queues within their capacity, every queued slice inside the buffer, a transport and statistics
  in order, \<^verbatim>\<open>done\<close> closed once the once-guard has run, and state events that never repeat and end
  at the current state.
\<close>

definition bridge_ok :: "'h Bridge \<Rightarrow> bool" where
  "bridge_ok b \<longleftrightarrow>
     chan_ok (framesToSend b) \<and> chan_cap (framesToSend b) = ChannelBufferSize \<and>
     chan_ok (framesToInject b) \<and> chan_cap (framesToInject b) = ChannelBufferSize \<and>
     length (recvBuf b) = recvBufSize \<and>
     (\<forall>(off, n) \<in> set (chan_buf (framesToInject b)). off + n \<le> recvBufSize \<and> 14 \<le> n) \<and>
     transport_ok (b_transport b) \<and> stats_ok (b_stats b) \<and>
     (doneOnce b \<longrightarrow> b_done b) \<and> known_state (b_state b) \<and>
     distinct_adj (State_String StateDisconnected # state_events b) \<and>
     last (State_String StateDisconnected # state_events b) = State_String (b_state b)"

lemma State_String_inj:
  "known_state s \<Longrightarrow> known_state t \<Longrightarrow> State_String s = State_String t \<longleftrightarrow> s = t"
  by (auto simp: known_state_def State_String_def)

lemma known_states [simp]:
  "known_state StateDisconnected" "known_state StateConnecting" "known_state StateConnected"
  by (simp_all add: known_state_def)

lemma bridge_ok_setState:
  assumes "bridge_ok b" and "known_state s"
  shows "bridge_ok (setState s b)"
proof (cases "b_state b = s")
  case True
  then have "setState s b = b" by (simp add: setState_def)
  with assms(1) show ?thesis by simp
next
  case False
  have "State_String (b_state b) \<noteq> State_String s"
    using State_String_inj [of "b_state b" s] assms False by (auto simp: bridge_ok_def)
  moreover have "state_events (setState s b) = state_events b @ [State_String s]"
    using False by (simp add: setState_def emit_def state_events_def Let_def)
  ultimately show ?thesis using assms False
    by (auto simp: bridge_ok_def setState_def emit_def Let_def distinct_adj_append_iff
        simp flip: append_Cons)
qed

lemma bridge_ok_frame [simp]:
  "bridge_ok (b\<lparr>b_codec := c\<rparr>) = bridge_ok b"
  "bridge_ok (b\<lparr>b_capture := cap\<rparr>) = bridge_ok b"
  "bridge_ok (b\<lparr>captureReady := r\<rparr>) = bridge_ok b"
  "bridge_ok (b\<lparr>pendingPing := ts\<rparr>) = bridge_ok b"
  "bridge_ok (b\<lparr>missedPongs := n\<rparr>) = bridge_ok b"
  "bridge_ok (b\<lparr>b_injected := fs\<rparr>) = bridge_ok b"
  by (simp_all add: bridge_ok_def state_events_def)

lemma bridge_ok_emit:
  "\<forall>s p. d \<noteq> StateChangedData s p \<Longrightarrow> bridge_ok (emit t d b) = bridge_ok b"
  by (cases d) (simp_all add: bridge_ok_def emit_def state_events_def)

lemma bridge_ok_transport: "bridge_ok b \<Longrightarrow> transport_ok t \<Longrightarrow> bridge_ok (b\<lparr>b_transport := t\<rparr>)"
  by (simp add: bridge_ok_def state_events_def)

lemma bridge_ok_stats: "bridge_ok b \<Longrightarrow> stats_ok s \<Longrightarrow> bridge_ok (b\<lparr>b_stats := s\<rparr>)"
  by (simp add: bridge_ok_def state_events_def)

lemma bridge_ok_sendq:
  "bridge_ok b \<Longrightarrow> chan_ok ch \<Longrightarrow> chan_cap ch = ChannelBufferSize \<Longrightarrow> bridge_ok (b\<lparr>framesToSend := ch\<rparr>)"
  by (simp add: bridge_ok_def state_events_def)

lemma bridge_ok_parts:
  assumes "bridge_ok b"
  shows "transport_ok (b_transport b)" and "stats_ok (b_stats b)"
    and "chan_ok (framesToSend b)" and "chan_cap (framesToSend b) = ChannelBufferSize"
  using assms by (simp_all add: bridge_ok_def)

lemma bridge_ok_closeDoneOnce: "bridge_ok b \<Longrightarrow> closeDoneOnce b = Ret b' \<Longrightarrow> bridge_ok b'"
  by (auto simp: closeDoneOnce_def bridge_ok_def state_events_def split: if_splits)

lemma bridge_ok_closeDone: "bridge_ok b \<Longrightarrow> closeDone b = Ret b' \<Longrightarrow> bridge_ok b'"
  by (auto simp: closeDone_def bridge_ok_def state_events_def split: if_splits)

section \<open>The slice a frame message leaves in the queue\<close>

lemma payload_ref_frame:
  assumes "Decode c data = (c', Ret msg)" and "msgType msg = MsgFrame"
  shows "deref (fill_buf data buf) (payload_ref c data) = Frame msg"
    and "fst (payload_ref c data) + snd (payload_ref c data) \<le> length data"
    and "14 \<le> snd (payload_ref c data)" and "snd (payload_ref c data) = length (Frame msg)"
proof -
  have frame: "Frame msg = p \<and> 14 \<le> length p" if "parsePayload MsgFrame p = Ret msg" for p
    using that by (auto simp: parsePayload_def new_Message_def split: if_splits)
  have "deref (fill_buf data buf) (payload_ref c data) = Frame msg \<and>
      fst (payload_ref c data) + snd (payload_ref c data) \<le> length data \<and>
      14 \<le> snd (payload_ref c data) \<and> snd (payload_ref c data) = length (Frame msg)"
  proof (cases "secureMode c")
    case True
    obtain n p where d: "data = sealed (psk c) (msgType msg) n p" and p: "parsePayload (msgType msg) p = Ret msg"
      using Decode_keyedE [OF True assms(1)] .
    have r: "payload_ref c data = (9, length p)" using True by (simp add: payload_ref_def d length_sealed)
    have "drop 9 (fill_buf data buf) = p @ hmac_sha256 (psk c) (msgType msg # PutUint64 n @ p) @ drop (length data) buf"
      by (simp add: fill_buf_def d sealed_def)
    moreover have "length data = 41 + length p" by (simp add: d length_sealed)
    moreover have "parsePayload MsgFrame p = Ret msg" using p assms(2) by (simp only:)
    ultimately show ?thesis using frame [of p] by (simp add: r deref_def)
  next
    case False
    obtain t q where d: "data = t # q" and "parsePayload t q = Ret msg"
      using assms(1) False by (cases data) (auto simp: Decode_def decode_insecure, simp add: decode_def)
    moreover from this have "t = MsgFrame"
      using assms(2) by (auto simp: parsePayload_def new_Message_def Let_def split: if_splits option.splits)
    ultimately show ?thesis
      using frame [of q] False by (simp add: payload_ref_def deref_def fill_buf_def)
  qed
  then show "deref (fill_buf data buf) (payload_ref c data) = Frame msg"
    and "fst (payload_ref c data) + snd (payload_ref c data) \<le> length data"
    and "14 \<le> snd (payload_ref c data)" and "snd (payload_ref c data) = length (Frame msg)" by blast+
qed

section \<open>Every operation keeps the invariant\<close>

lemma handleFrame_ok:
  assumes "bridge_ok b" and "off + n \<le> recvBufSize" and "14 \<le> n"
  shows "bridge_ok (handleFrame (off, n) b)"
  using assms
  by (auto simp: bridge_ok_def handleFrame_def state_events_def stats_ok_def Let_def chan_try_send_def chan_ok_def)

lemma sendMsg_ok: "bridge_ok b \<Longrightarrow> bridge_ok (fst (sendMsg ok m b))"
  using Send_ok [of "b_transport b" ok m]
  by (auto simp: sendMsg_def split: prod.splits intro!: bridge_ok_transport dest: bridge_ok_parts(1))

lemma encodePong_ok [simp]: "bridge_ok (fst (encodePong ts b)) = bridge_ok b"
  by (simp add: encodePong_def split: prod.splits)

lemma encodePing_ok [simp]: "bridge_ok (fst (encodePing ts b)) = bridge_ok b"
  by (simp add: encodePing_def split: prod.splits)

lemma handlePing_ok: "bridge_ok b \<Longrightarrow> bridge_ok (handlePing ok ts b)"
  using sendMsg_ok [of "fst (encodePong ts b)" ok "snd (encodePong ts b)"]
  by (simp add: handlePing_def case_prod_beta)

lemma stats_ok_SetLast [simp]: "stats_ok (SetLastRTT r s) = stats_ok s"
  by (simp add: stats_ok_def SetLastRTT_def)

lemma handlePong_ok:
  assumes "bridge_ok b"
  shows "bridge_ok (handlePong now ts b)"
  using assms
  by (auto simp: handlePong_def Let_def bridge_ok_emit
      intro!: bridge_ok_stats AddRTTSample_ok bridge_ok_parts(2))

lemma handleBye_ok: "bridge_ok b \<Longrightarrow> handleBye b = Ret b' \<Longrightarrow> bridge_ok b'"
  using bridge_ok_closeDoneOnce [of "setState StateDisconnected b" b'] bridge_ok_setState [of b StateDisconnected]
  by (simp add: handleBye_def)

lemma sendPing_lock_ok:
  assumes "bridge_ok b" and "sendPing_lock now b = Ret (b', r)"
  shows "bridge_ok b'"
proof -
  have "bridge_ok (setState StateDisconnected
      (emit EventError (ErrorData (unresponsive_message (missedPongs b + 1))) (b\<lparr>missedPongs := missedPongs b + 1\<rparr>)))"
    using assms(1) by (intro bridge_ok_setState) (simp_all add: bridge_ok_emit)
  then show ?thesis using assms
    by (auto simp: sendPing_lock_def Let_def split: if_splits outcome.splits intro: bridge_ok_closeDoneOnce)
qed

lemma sendPing_ok:
  assumes "bridge_ok b" and "sendPing now ok b = Ret b'"
  shows "bridge_ok b'"
proof -
  obtain b1 r where l: "sendPing_lock now b = Ret (b1, r)"
    using assms(2) by (auto simp: sendPing_def split: outcome.splits)
  then have ok1: "bridge_ok b1" using sendPing_lock_ok assms(1) by blast
  show ?thesis
  proof (cases r)
    case None
    with l assms(2) ok1 show ?thesis by (simp add: sendPing_def)
  next
    case (Some ts)
    with l assms(2) have "b' = fst (sendMsg ok (snd (encodePing ts b1)) (fst (encodePing ts b1)))"
      by (simp add: sendPing_def case_prod_beta)
    then show ?thesis using sendMsg_ok [of "fst (encodePing ts b1)"] ok1 by simp
  qed
qed

definition loop_pred :: "('b \<Rightarrow> bool) \<Rightarrow> 'b loop_out \<Rightarrow> bool" where
  "loop_pred P r \<longleftrightarrow> (case r of Running b \<Rightarrow> P b | Exited b \<Rightarrow> P b | Crashed \<Rightarrow> True)"

lemma loop_pred_simps [simp]:
  "loop_pred P (Running b) = P b" "loop_pred P (Exited b) = P b" "loop_pred P Crashed"
  by (simp_all add: loop_pred_def)

lemma captureLoop_ok: "bridge_ok b \<Longrightarrow> loop_pred bridge_ok (captureLoop_iter ctx rd b)"
  by (auto simp: captureLoop_iter_def gochan.send_capacity intro!: bridge_ok_sendq chan_ok_send
      dest: bridge_ok_parts split: option.splits outcome.splits)

lemma sendLoop_encode_ok [simp]: "bridge_ok (fst (sendLoop_encode f b)) = bridge_ok b"
  by (auto simp: sendLoop_encode_def split: prod.splits outcome.splits)

lemma sendLoop_send_ok:
  assumes "bridge_ok b"
  shows "bridge_ok (sendLoop_send ok m len b)"
  using sendMsg_ok [OF assms, of ok m]
  by (auto simp: sendLoop_send_def Let_def stats_ok_def split: prod.splits bool.splits
      intro!: bridge_ok_stats dest: bridge_ok_parts(2))

lemma sendLoop_ok: "bridge_ok b \<Longrightarrow> loop_pred bridge_ok (sendLoop_iter d ok b)"
proof -
  assume b: "bridge_ok b"
  have "bridge_ok (b\<lparr>framesToSend := ch\<rparr>)" if "chan_recv (framesToSend b) = Some (f, ch)" for f ch
    using b that chan_ok_recv [OF that] gochan.recv_bounded [OF that]
    by (intro bridge_ok_sendq) (auto simp: bridge_ok_def chan_ok_def)
  then show ?thesis using b
    by (auto simp: sendLoop_iter_def split: option.splits prod.splits
        intro: sendLoop_send_ok dest!: arg_cong [where f = "\<lambda>x. bridge_ok (fst x)"])
qed

lemma dispatch_ok:
  assumes "bridge_ok b" and "dispatch ob ref msg b = Ret b'"
    and "msgType msg = MsgFrame \<Longrightarrow> fst ref + snd ref \<le> recvBufSize \<and> 14 \<le> snd ref"
  shows "bridge_ok b'"
proof (cases "msgType msg = MsgFrame")
  case True
  then show ?thesis
    using assms handleFrame_ok [of b "fst ref" "snd ref"] by (simp add: dispatch_def)
next
  case False
  then show ?thesis using assms(1,2)
    by (auto simp: dispatch_def intro: handlePing_ok handlePong_ok handleBye_ok split: if_splits)
qed

lemma length_fill_buf: "length data \<le> length buf \<Longrightarrow> length (fill_buf data buf) = length buf"
  by (simp add: fill_buf_def)

lemma bridge_ok_recvBuf:
  assumes "bridge_ok b" and "length data \<le> recvBufSize"
  shows "bridge_ok (b\<lparr>recvBuf := fill_buf data (recvBuf b)\<rparr>)"
  using assms length_fill_buf [of data "recvBuf b"] by (simp add: bridge_ok_def state_events_def)

lemma recvLoop_ok:
  assumes "bridge_ok b"
  shows "loop_pred bridge_ok (recvLoop_iter ctx peer ob b)"
proof (cases "\<not> ctx \<and> (\<exists>packet addr. Recv (r_read ob) (b_transport b) = Received packet addr)")
  case True
  then obtain packet addr where ctx: "\<not> ctx" and r: "Recv (r_read ob) (b_transport b) = Received packet addr"
    by blast
  define data where "data = take recvBufSize packet"
  define b1 where "b1 = b\<lparr>recvBuf := fill_buf data (recvBuf b)\<rparr>"
  have ok1: "bridge_ok b1" unfolding b1_def by (rule bridge_ok_recvBuf [OF assms]) (simp add: data_def)
  obtain c res where d: "Decode (b_codec b) data = (c, res)" by fastforce
  have dec: "recvLoop_decode data b1 = (b1\<lparr>b_codec := c\<rparr>, res)"
    by (simp add: recvLoop_decode_def d b1_def)
  show ?thesis
  proof (cases "(peer \<noteq> None \<and> \<not> addrEqual (Some addr) peer) \<or> (\<forall>msg. res \<noteq> Ret msg)")
    case True
    then show ?thesis using ctx r ok1 dec
      by (auto simp: recvLoop_iter_def Let_def data_def [symmetric] b1_def [symmetric] split: outcome.splits)
  next
    case False
    then obtain msg where msg: "res = Ret msg" by blast
    let ?ref = "payload_ref (b_codec b) data"
    have "fst ?ref + snd ?ref \<le> recvBufSize \<and> 14 \<le> snd ?ref" if "msgType msg = MsgFrame"
      using payload_ref_frame(2,3) [OF d [unfolded msg] that] by (simp add: data_def)
    then have "bridge_ok b3" if "dispatch ob ?ref msg (b1\<lparr>b_codec := c\<rparr>) = Ret b3" for b3
      using dispatch_ok [OF _ that] ok1 by auto
    then show ?thesis using ctx r ok1 dec msg False
      by (auto simp: recvLoop_iter_def Let_def data_def [symmetric] b1_def [symmetric] split: outcome.splits)
  qed
next
  case False
  then show ?thesis using assms by (auto simp: recvLoop_iter_def split: recv_result.splits)
qed

lemma bridge_ok_injectq:
  assumes "bridge_ok b" and "chan_recv (framesToInject b) = Some (r, ch)"
  shows "bridge_ok (b\<lparr>framesToInject := ch\<rparr>)"
  using assms chan_ok_recv [OF assms(2)] gochan.recv_bounded [OF assms(2)]
    gochan.recv_contents [OF assms(2)]
  by (auto simp: bridge_ok_def chan_ok_def state_events_def)

lemma injectLoop_ok: "bridge_ok b \<Longrightarrow> loop_pred bridge_ok (injectLoop_iter d wr b)"
  using bridge_ok_injectq [of b]
  by (auto simp: injectLoop_iter_def Let_def split: option.splits outcome.splits)

lemma pingLoop_ok: "bridge_ok b \<Longrightarrow> loop_pred bridge_ok (pingLoop_iter d t now ok b)"
  by (auto simp: pingLoop_iter_def split: tick.splits outcome.splits intro: sendPing_ok)

lemma printStats_ok [simp]: "bridge_ok (fst (printStats b)) = bridge_ok b"
  by (simp add: printStats_def Let_def bridge_ok_emit)

lemma statsLoop_ok: "bridge_ok b \<Longrightarrow> loop_pred bridge_ok (fst (statsLoop_iter d t q b))"
  by (cases "printStats b") (use printStats_ok [of b] in \<open>auto simp: statsLoop_iter_def\<close>)

lemma Run_handshake_ok:
  "transport_ok (b_transport b) \<Longrightarrow> transport_ok (fst (fst (Run_handshake env b)))"
  using Connect_ok [of "b_transport b" "e_connect env" "b_codec b"]
  by (auto simp: Run_handshake_def WaitForPeer_ok split: prod.splits)

lemma Run_connect_ok:
  assumes "bridge_ok b"
  shows "bridge_ok (fst (Run_connect env b))"
proof -
  let ?b1 = "setState StateConnecting b"
  have b1: "bridge_ok ?b1" using assms by (simp add: bridge_ok_setState)
  obtain t c r where h: "Run_handshake env ?b1 = ((t, c), r)" by (metis surj_pair)
  have "transport_ok t" using Run_handshake_ok [of ?b1 env] bridge_ok_parts(1) [OF b1] h by simp
  then have "bridge_ok (?b1\<lparr>b_transport := t, b_codec := c\<rparr>)"
    using bridge_ok_transport [OF b1] by simp
  then show ?thesis
    by (auto simp: Run_connect_def Let_def h bridge_ok_setState split: option.splits)
qed

lemma closeTransport_ok: "bridge_ok b \<Longrightarrow> bridge_ok (closeTransport b)"
  unfolding closeTransport_def by (rule bridge_ok_transport) (auto intro: Close_ok dest: bridge_ok_parts(1))

lemma closeCapture_ok [simp]: "bridge_ok (closeCapture b) = bridge_ok b"
  by (simp add: closeCapture_def)

lemma teardown_bye_ok: "bridge_ok b \<Longrightarrow> bridge_ok (teardown_bye ok b)"
  using SendBye_ok [of "b_transport b" ok "b_codec b"] bridge_ok_parts(1) [of b]
  by (auto simp: teardown_bye_def split: prod.splits dest: bridge_ok_transport)

lemma Bridge_New_ok:
  assumes "Bridge_New cfg = Inr b" and "\<forall>t. bc_Transport cfg = Some t \<longrightarrow> transport_ok t"
  shows "bridge_ok b"
  using assms
  by (auto simp: Bridge_New_def bridge_ok_def make_chan_def chan_ok_def stats_ok_def new_Stats_def
      state_events_def recvBufSize_def split: option.splits if_splits)

text \<open>
  C6. The bridge's invariant holds from \<^verbatim>\<open>New\<close> on and every body of every goroutine, the connecting
  phase and both teardowns keep it: queues within 256 entries, queued slices inside the receive
  buffer, an orderly transport and statistics, and state events that never announce the same
  state twice in a row and always end at the current state.
\<close>

theorem bridge_invariant:
  assumes "bridge_ok b"
  shows "(Bridge_New cfg = Inr b0 \<and> (\<forall>t. bc_Transport cfg = Some t \<longrightarrow> transport_ok t) \<longrightarrow> bridge_ok b0) \<and>
     (SetCapture cap b = Ret b1 \<longrightarrow> bridge_ok b1) \<and>
     bridge_ok (fst (Run_connect env b)) \<and>
     loop_pred bridge_ok (captureLoop_iter ctx rd b) \<and>
     loop_pred bridge_ok (sendLoop_iter ctx ok b) \<and>
     loop_pred bridge_ok (recvLoop_iter ctx peer ob b) \<and>
     loop_pred bridge_ok (injectLoop_iter ctx wr b) \<and>
     loop_pred bridge_ok (pingLoop_iter ctx tk now ok b) \<and>
     loop_pred bridge_ok (fst (statsLoop_iter ctx tk q b)) \<and>
     bridge_ok (teardown_peer b) \<and>
     (teardown_shutdown ok b = Ret b2 \<longrightarrow> bridge_ok b2)"
proof -
  have "bridge_ok b1" if "SetCapture cap b = Ret b1"
    using that assms by (auto simp: SetCapture_def split: if_splits)
  moreover have "bridge_ok b2" if "teardown_shutdown ok b = Ret b2"
    using that teardown_bye_ok [OF assms, of ok]
    by (auto simp: teardown_shutdown_def split: outcome.splits intro!: closeTransport_ok dest: bridge_ok_closeDone)
  moreover have "bridge_ok (teardown_peer b)" using assms by (simp add: teardown_peer_def closeTransport_ok)
  ultimately show ?thesis
    using assms Bridge_New_ok [of cfg b0]
    by (simp add: Run_connect_ok captureLoop_ok sendLoop_ok recvLoop_ok injectLoop_ok pingLoop_ok statsLoop_ok)
qed

text \<open>A bridge over a connected transport, with a capture, for the concrete instances.\<close>

definition sample_config :: "bytes \<Rightarrow> unit BridgeConfig" where
  "sample_config k =
     \<lparr>bc_Capture = Some \<lparr>handle = Some (), xboxMAC = [0, 80, 242, 1, 2, 3], ifName = ''eth0''\<rparr>,
      bc_Transport = Some (sample_transport ModeListen), bc_Codec = Some (NewCodec k), bc_Logger = True,
      bc_Mode = ModeListen, bc_StatsInterval = 0\<rparr>"

definition sample_bridge :: "bytes \<Rightarrow> unit Bridge" where
  "sample_bridge k = projr (Bridge_New (sample_config k))"

lemma Bridge_New_sample: "Bridge_New (sample_config k) = Inr (sample_bridge k)"
  by (simp add: sample_bridge_def Bridge_New_def sample_config_def)

lemma sample_bridge_fields [simp]:
  "b_transport (sample_bridge k) = sample_transport ModeListen" "b_codec (sample_bridge k) = NewCodec k"
  "b_capture (sample_bridge k) = Some \<lparr>handle = Some (), xboxMAC = [0, 80, 242, 1, 2, 3], ifName = ''eth0''\<rparr>"
  "framesToSend (sample_bridge k) = make_chan ChannelBufferSize"
  "framesToInject (sample_bridge k) = make_chan ChannelBufferSize"
  "b_done (sample_bridge k) = False" "doneOnce (sample_bridge k) = False"
  "pendingPing (sample_bridge k) = 0" "missedPongs (sample_bridge k) = 0"
  "b_injected (sample_bridge k) = []" "b_state (sample_bridge k) = StateDisconnected"
  "recvBuf (sample_bridge k) = replicate recvBufSize 0" "b_stats (sample_bridge k) = new_Stats"
  "b_emitted (sample_bridge k) = []"
  by (simp_all add: sample_bridge_def Bridge_New_def sample_config_def)

lemma transport_ok_sample: "transport_ok (sample_transport m)"
  by (simp add: transport_ok_def sample_transport_def new_UDPConn_def)

lemma bridge_ok_sample: "bridge_ok (sample_bridge k)"
  using Bridge_New_ok [OF Bridge_New_sample] by (simp add: sample_config_def transport_ok_sample)

theorem bridge_invariant_witness:
  "bridge_ok (sample_bridge [7]) \<and>
   loop_pred bridge_ok (pingLoop_iter False Tick 5 True (sample_bridge [7])) \<and>
   bridge_ok (teardown_peer (sample_bridge [7]))"
  using bridge_invariant [OF bridge_ok_sample [of "[7]"], where ctx = False and tk = Tick and now = 5 and ok = True]
    bridge_ok_sample by blast

end
