(* ===== verification/Bridge_Traffic.thy ===== *)
theory Bridge_Traffic
  imports Bridge_Behaviour
begin

text \<open>
  What the bridge does to traffic: which datagrams can change its state, the path of a frame from
  one bridge's send queue to the other's network, the one receive buffer that queued frames share,
  and the ping accounting on both ends.
\<close>

section \<open>One received datagram\<close>

definition link_up :: "Transport \<Rightarrow> bool" where
  "link_up t \<longleftrightarrow> connected t \<and> \<not> closed t \<and> conn_open t \<and> peerAddr t \<noteq> None"

lemma Recv_up: "link_up t \<Longrightarrow> Recv (read_result.ReadPacket data addr) t = Received data addr"
  by (auto simp: link_up_def conn_open_def Recv_def ReadFromUDP_def)

lemma recvLoop_receives:
  assumes "link_up (b_transport b)" and "r_read ob = read_result.ReadPacket data addr" and "length data \<le> recvBufSize"
    and "addrEqual (Some addr) (Some peer)" and "Decode (b_codec b) data = (c, Ret msg)"
  shows "recvLoop_iter False (Some peer) ob b =
     (case dispatch ob (payload_ref (b_codec b) data) msg
             (b\<lparr>recvBuf := fill_buf data (recvBuf b), b_codec := c\<rparr>) of
        Ret b' \<Rightarrow> Running b'
      | Err e \<Rightarrow> Running (b\<lparr>recvBuf := fill_buf data (recvBuf b), b_codec := c\<rparr>)
      | Panic \<Rightarrow> Crashed)"
  using assms by (simp add: recvLoop_iter_def Recv_up Let_def recvLoop_decode_def)

lemma decode_rejected:
  assumes "decode c m = (c', r)" and "\<forall>x. r \<noteq> Ret x"
  shows "c' = c"
proof (cases "secureMode c \<and> 41 \<le> length m")
  case True
  then show ?thesis using assms by (auto simp: decode_long Let_def split: if_splits)
next
  case False
  then show ?thesis using assms
    by (cases "secureMode c") (auto simp: decode_short not_le decode_def split: if_splits option.splits)
qed

text \<open>
  C7. With a key, only the peer can act on the bridge: unless the datagram read comes from the
  peer's address, carries a correct tag under the key and a nonce outside the replay window (or is
  a handshake message), one iteration of the receive loop changes at most the contents of the
  receive buffer.
\<close>

theorem recvLoop_authentic:
  assumes "secureMode (b_codec b)"
  shows "(\<exists>buf. recvLoop_iter ctx (Some peer) ob b \<in> {Running (b\<lparr>recvBuf := buf\<rparr>), Exited b}) \<or>
     (\<exists>data addr t n p. r_read ob = read_result.ReadPacket data addr \<and> addrEqual (Some addr) (Some peer) \<and>
        take recvBufSize data = sealed (psk (b_codec b)) t n p \<and>
        (is_handshake t \<or> n = 0 \<or> recvNonce (b_codec b) < n))"
proof (cases "\<exists>packet addr. Recv (r_read ob) (b_transport b) = Received packet addr \<and> \<not> ctx \<and>
    addrEqual (Some addr) (Some peer)")
  case True
  then obtain packet addr where r: "Recv (r_read ob) (b_transport b) = Received packet addr"
    and a: "addrEqual (Some addr) (Some peer)" "\<not> ctx" by blast
  have rd: "r_read ob = read_result.ReadPacket packet addr"
    using r by (auto simp: Recv_def ReadFromUDP_def split: if_splits option.splits read_result.splits)
  let ?data = "take recvBufSize packet"
  show ?thesis
  proof (cases "\<exists>c m. decode (b_codec b) ?data = (c, Ret m)")
    case True
    then obtain c t p where "decode (b_codec b) ?data = (c, Ret (t, p))" by auto
    then obtain n where "?data = sealed (psk (b_codec b)) t n p" "is_handshake t \<or> n = 0 \<or> recvNonce (b_codec b) < n"
      by (rule decode_acceptedE [OF assms]) auto
    then show ?thesis using rd a by blast
  next
    case False
    then obtain c r where d: "decode (b_codec b) ?data = (c, r)" and nr: "\<forall>m. r \<noteq> Ret m" by (metis surj_pair)
    have "c = b_codec b" using d nr decode_rejected by metis
    moreover have "r \<noteq> Panic" using decode_not_panic [of "b_codec b" ?data] d by simp
    ultimately have "\<exists>e. Decode (b_codec b) ?data = (b_codec b, Err e)"
      using d nr by (cases r) (auto simp: Decode_def)
    then show ?thesis using r a by (auto simp: recvLoop_iter_def recvLoop_decode_def Let_def)
  qed
next
  case False
  let ?r = "recvLoop_iter ctx (Some peer) ob b"
  from False have "?r = Exited b \<or> ?r = Running b \<or> (\<exists>buf. ?r = Running (b\<lparr>recvBuf := buf\<rparr>))"
    by (auto simp: recvLoop_iter_def Let_def split: recv_result.splits)
  moreover have "b\<lparr>recvBuf := recvBuf b\<rparr> = b" by simp
  ultimately show ?thesis by (metis insert_iff)
qed

theorem recvLoop_authentic_witness:
  "\<exists>buf. recvLoop_iter False (Some sample_addr)
       \<lparr>r_read = read_result.ReadPacket [3, 1] sample_addr, r_done_after = False, r_now = 0, r_write = True\<rparr>
       (sample_bridge [7]) \<in> {Running ((sample_bridge [7])\<lparr>recvBuf := buf\<rparr>), Exited (sample_bridge [7])}"
proof -
  have "[3, 1] \<noteq> sealed k t n p" for k t n p
  proof
    assume "[3, 1] = sealed k t n p"
    then have "length [3, 1 :: byte] = 41 + length p" unfolding length_sealed [of k t n p, symmetric] by (rule arg_cong)
    then show False by simp
  qed
  then show ?thesis
    using recvLoop_authentic [of "sample_bridge [7]" False sample_addr
        "\<lparr>r_read = read_result.ReadPacket [3, 1] sample_addr, r_done_after = False, r_now = 0, r_write = True\<rparr>"]
    by (auto simp: NewCodec_def recvBufSize_def)
qed

section \<open>The path of a frame\<close>

definition legal_frame :: "bytes \<Rightarrow> bool" where
  "legal_frame f \<longleftrightarrow> 14 \<le> length f \<and> length f \<le> 1514"

text \<open>The datagrams a bridge has handed to its socket.\<close>

definition sent :: "'h Bridge \<Rightarrow> (bytes \<times> UDPAddr) list" where
  "sent b = (case conn (b_transport b) of None \<Rightarrow> [] | Some k \<Rightarrow> conn_sent k)"

lemma Send_up:
  assumes "link_up t"
  obtains k where "conn t = Some k" and "Send True t m = (t\<lparr>conn := Some (k\<lparr>conn_sent := conn_sent k @ [(m, the (peerAddr t))]\<rparr>)\<rparr>, None)"
  using assms by (auto simp: link_up_def conn_open_def Send_def WriteToUDP_def)

lemma link_up_sent: "link_up t \<Longrightarrow> conn t = Some k \<Longrightarrow> link_up (t\<lparr>conn := Some (k\<lparr>conn_sent := ds\<rparr>)\<rparr>)"
  by (simp add: link_up_def conn_open_def)

lemma sendMsg_up:
  assumes "link_up (b_transport b)"
  shows "\<exists>t. sendMsg True m b = (b\<lparr>b_transport := t\<rparr>, True) \<and> link_up t \<and> peerAddr t = peerAddr (b_transport b) \<and>
     sent (b\<lparr>b_transport := t\<rparr>) = sent b @ [(m, the (peerAddr (b_transport b)))]"
proof -
  obtain k where "conn (b_transport b) = Some k"
    and "Send True (b_transport b) m = ((b_transport b)\<lparr>conn := Some (k\<lparr>conn_sent := conn_sent k @ [(m, the (peerAddr (b_transport b)))]\<rparr>)\<rparr>, None)"
    by (rule Send_up [OF assms])
  then show ?thesis using link_up_sent [OF assms]
    by (intro exI [of _ "(b_transport b)\<lparr>conn := Some (k\<lparr>conn_sent := conn_sent k @ [(m, the (peerAddr (b_transport b)))]\<rparr>)\<rparr>"])
      (simp add: sendMsg_def sent_def)
qed

lemma sendLoop_sends:
  assumes "link_up (b_transport a)" and "chan_buf (framesToSend a) = f # fs" and "legal_frame f"
  shows "\<exists>a'. sendLoop_iter False True a = Running a' \<and> link_up (b_transport a') \<and>
     peerAddr (b_transport a') = peerAddr (b_transport a) \<and> chan_buf (framesToSend a') = fs \<and>
     b_codec a' = fst (encode (b_codec a) MsgFrame f) \<and>
     sent a' = sent a @ [(snd (encode (b_codec a) MsgFrame f), the (peerAddr (b_transport a)))] \<and>
     TxPackets (b_stats a') = TxPackets (b_stats a) + 1 \<and>
     TxBytes (b_stats a') = TxBytes (b_stats a) + of_nat (length f)"
proof -
  obtain c m where enc: "encode (b_codec a) MsgFrame f = (c, m)" by fastforce
  let ?a1 = "a\<lparr>framesToSend := (framesToSend a)\<lparr>chan_buf := fs\<rparr>, b_codec := c\<rparr>"
  have "sendLoop_encode f (a\<lparr>framesToSend := (framesToSend a)\<lparr>chan_buf := fs\<rparr>\<rparr>) = (?a1, Some m)"
    using assms(3) enc by (simp add: sendLoop_encode_def EncodeFrame_def legal_frame_def)
  moreover obtain t where "sendMsg True m ?a1 = (?a1\<lparr>b_transport := t\<rparr>, True)" and "link_up t"
    and "peerAddr t = peerAddr (b_transport a)"
    and "sent (?a1\<lparr>b_transport := t\<rparr>) = sent ?a1 @ [(m, the (peerAddr (b_transport a)))]"
    using sendMsg_up [of ?a1 m] assms(1) by auto
  ultimately show ?thesis using assms(2) enc
    by (simp add: sendLoop_iter_def chan_recv_def sendLoop_send_def Let_def sent_def)
qed

text \<open>The send loop run once per entry; the receive loop followed by the inject loop per datagram.\<close>

fun send_run :: "bool list \<Rightarrow> 'h Bridge \<Rightarrow> 'h Bridge" where
  "send_run [] b = b"
| "send_run (ok # oks) b = (case sendLoop_iter False ok b of Running b1 \<Rightarrow> send_run oks b1 | _ \<Rightarrow> b)"

definition from_peer :: "UDPAddr \<Rightarrow> bytes \<Rightarrow> int64 \<Rightarrow> recv_obs" where
  "from_peer addr data now =
     \<lparr>r_read = read_result.ReadPacket data addr, r_done_after = False, r_now = now, r_write = True\<rparr>"

lemma from_peer_fields [simp]:
  "r_read (from_peer addr data now) = read_result.ReadPacket data addr" "r_now (from_peer addr data now) = now"
  "r_write (from_peer addr data now)"
  by (simp_all add: from_peer_def)

fun deliver_run ::
    "UDPAddr \<Rightarrow> ('h option \<Rightarrow> bytes \<Rightarrow> (capture_error, unit) outcome) \<Rightarrow> bytes list \<Rightarrow> 'h Bridge \<Rightarrow> 'h Bridge" where
  "deliver_run peer wr [] b = b"
| "deliver_run peer wr (d # ds) b =
     (case recvLoop_iter False (Some peer) (from_peer peer d 0) b of
        Running b1 \<Rightarrow> (case injectLoop_iter False wr b1 of Running b2 \<Rightarrow> deliver_run peer wr ds b2 | _ \<Rightarrow> b1)
      | _ \<Rightarrow> b)"

lemma send_run_drains:
  assumes "link_up (b_transport a)" and "chan_buf (framesToSend a) = fs" and "\<forall>f \<in> set fs. legal_frame f"
  shows "let a' = send_run (replicate (length fs) True) a; p = the (peerAddr (b_transport a)) in
     chan_buf (framesToSend a') = [] \<and>
     sent a' = sent a @ map (\<lambda>m. (m, p)) (snd (encode_all (b_codec a) (map (Pair MsgFrame) fs))) \<and>
     TxPackets (b_stats a') = TxPackets (b_stats a) + of_nat (length fs) \<and>
     TxBytes (b_stats a') = TxBytes (b_stats a) + of_nat (sum_list (map length fs))"
  using assms
proof (induction fs arbitrary: a)
  case Nil
  then show ?case by simp
next
  case (Cons f fs)
  obtain a' where a': "sendLoop_iter False True a = Running a'" "link_up (b_transport a')"
    "peerAddr (b_transport a') = peerAddr (b_transport a)" "chan_buf (framesToSend a') = fs"
    "b_codec a' = fst (encode (b_codec a) MsgFrame f)"
    "sent a' = sent a @ [(snd (encode (b_codec a) MsgFrame f), the (peerAddr (b_transport a)))]"
    "TxPackets (b_stats a') = TxPackets (b_stats a) + 1"
    "TxBytes (b_stats a') = TxBytes (b_stats a) + of_nat (length f)"
    using sendLoop_sends [OF Cons.prems(1,2)] Cons.prems(3) by auto
  show ?case using Cons.IH [OF a'(2,4)] Cons.prems(3) a'
    by (simp add: Let_def case_prod_beta ac_simps del: MsgFrame_def)
qed

text \<open>A bridge that is up, has nothing waiting for injection and can inject.\<close>

definition inject_ready :: "('h option \<Rightarrow> bytes \<Rightarrow> (capture_error, unit) outcome) \<Rightarrow> 'h Bridge \<Rightarrow> bool" where
  "inject_ready wr b \<longleftrightarrow> link_up (b_transport b) \<and>
     chan_buf (framesToInject b) = [] \<and> 0 < chan_cap (framesToInject b) \<and>
     (\<exists>cap. b_capture b = Some cap \<and> (\<forall>f. legal_frame f \<longrightarrow> wr (handle cap) f = Ret ()))"

lemma injectLoop_next:
  assumes "chan_buf (framesToInject b) = ref # refs" and "b_capture b = Some cap"
    and "14 \<le> length (deref (recvBuf b) ref)" and "wr (handle cap) (deref (recvBuf b) ref) = Ret ()"
  shows "injectLoop_iter False wr b =
     Running (b\<lparr>framesToInject := (framesToInject b)\<lparr>chan_buf := refs\<rparr>,
                b_injected := b_injected b @ [deref (recvBuf b) ref]\<rparr>)"
  using assms by (simp add: injectLoop_iter_def chan_recv_def Let_def WritePacket_def)

lemma recvLoop_frame:
  assumes "link_up (b_transport b)" and "length data \<le> recvBufSize"
    and "Decode (b_codec b) data = (c, Ret msg)" and "msgType msg = MsgFrame"
  shows "recvLoop_iter False (Some peer) (from_peer peer data now) b =
     Running (handleFrame (payload_ref (b_codec b) data)
                (b\<lparr>recvBuf := fill_buf data (recvBuf b), b_codec := c\<rparr>))"
  using recvLoop_receives [of b "from_peer peer data now" data peer peer, OF assms(1) _ assms(2) _ assms(3)] assms(4)
  by (simp add: dispatch_def)

lemma length_encode_frame: "legal_frame f \<Longrightarrow> length (snd (encode c MsgFrame f)) \<le> recvBufSize"
  by (cases "secureMode c") (simp_all add: encode_secure encode_insecure length_sealed legal_frame_def recvBufSize_def)

lemma receive_inject_iter:
  assumes "inject_ready wr b" and "paired c (b_codec b)" and "window_open c (b_codec b)" and "legal_frame f"
  shows "\<exists>b1 b'. recvLoop_iter False (Some peer) (from_peer peer (snd (encode c MsgFrame f)) now) b = Running b1 \<and>
     injectLoop_iter False wr b1 = Running b' \<and>
     inject_ready wr b' \<and> b_codec b' = after_accept c MsgFrame (b_codec b) \<and>
     b_injected b' = b_injected b @ [f] \<and> RxPackets (b_stats b') = RxPackets (b_stats b) + 1"
proof -
  let ?m = "snd (encode c MsgFrame f)" and ?c = "after_accept c MsgFrame (b_codec b)"
  let ?b1 = "b\<lparr>recvBuf := fill_buf ?m (recvBuf b), b_codec := ?c\<rparr>"
  let ?ref = "payload_ref (b_codec b) ?m"
  define b2 where "b2 = handleFrame ?ref ?b1"
  have legal: "14 \<le> length f \<and> length f \<le> 1514" using assms(4) by (simp add: legal_frame_def)
  obtain cap where cap: "b_capture b = Some cap" "wr (handle cap) f = Ret ()"
    using assms(1,4) by (auto simp: inject_ready_def)
  have dec: "Decode (b_codec b) ?m = (?c, Ret ((new_Message MsgFrame)\<lparr>Frame := f\<rparr>))"
    using Decode_encode [OF assms(2), of MsgFrame f] assms(3) parsePayload_frame [of f] legal by simp
  have frame: "deref (fill_buf ?m (recvBuf b)) ?ref = f"
    using payload_ref_frame(1) [OF dec] by (simp add: new_Message_def)
  have recv: "recvLoop_iter False (Some peer) (from_peer peer ?m now) b = Running b2"
    using recvLoop_frame [OF _ length_encode_frame [OF assms(4)] dec] assms(1)
    by (simp add: b2_def inject_ready_def new_Message_def)
  have q: "chan_buf (framesToInject b2) = [?ref]"
    using assms(1) by (simp add: b2_def handleFrame_def chan_try_send_def inject_ready_def Let_def)
  have b2: "recvBuf b2 = fill_buf ?m (recvBuf b)" "b_capture b2 = b_capture b" "b_injected b2 = b_injected b"
    "b_codec b2 = ?c" "b_transport b2 = b_transport b" "chan_cap (framesToInject b2) = chan_cap (framesToInject b)"
    "RxPackets (b_stats b2) = RxPackets (b_stats b) + 1"
    by (simp_all add: b2_def handleFrame_def Let_def gochan.send_capacity)
  define b3 where "b3 = b2\<lparr>framesToInject := (framesToInject b2)\<lparr>chan_buf := []\<rparr>, b_injected := b_injected b2 @ [f]\<rparr>"
  have "injectLoop_iter False wr b2 = Running b3"
    unfolding b3_def using injectLoop_next [OF q] b2(1,2) cap frame legal by simp
  moreover have "inject_ready wr b3" using assms(1) b2 by (simp add: b3_def inject_ready_def)
  ultimately show ?thesis using recv b2 by (intro exI [of _ b2] exI [of _ b3]) (simp add: b3_def)
qed

lemma receive_inject:
  assumes "inject_ready wr b" and "paired c (b_codec b)" and "window_open c (b_codec b)" and "legal_frame f"
  shows "\<exists>b'. (\<forall>ds. deliver_run peer wr (snd (encode c MsgFrame f) # ds) b = deliver_run peer wr ds b') \<and>
     inject_ready wr b' \<and> b_codec b' = after_accept c MsgFrame (b_codec b) \<and>
     b_injected b' = b_injected b @ [f] \<and> RxPackets (b_stats b') = RxPackets (b_stats b) + 1"
  using receive_inject_iter [OF assms, of peer 0] by (auto simp del: MsgFrame_def)

lemma deliver_stream:
  assumes "length bs = length fs" and "link_ok (length fs) c (b_codec b)" and "inject_ready wr b"
    and "\<forall>f \<in> set fs. legal_frame f"
  shows "let b' = deliver_run peer wr (delivered bs (snd (encode_all c (map (Pair MsgFrame) fs)))) b in
     b_injected b' = b_injected b @ delivered bs fs \<and>
     RxPackets (b_stats b') = RxPackets (b_stats b) + of_nat (length (delivered bs fs))"
  using assms
proof (induction bs fs arbitrary: c b rule: list_induct2)
  case Nil
  then show ?case by simp
next
  case (Cons x bs f fs)
  have link: "link_ok (Suc (length fs)) c (b_codec b)" using Cons.prems(1) by simp
  note step = link_ok_step(1) [OF link] link_ok_step(2,3) [OF link, of MsgFrame f]
  obtain b' where b': "\<forall>ds. deliver_run peer wr (snd (encode c MsgFrame f) # ds) b = deliver_run peer wr ds b'"
    "inject_ready wr b'" "b_codec b' = after_accept c MsgFrame (b_codec b)" "b_injected b' = b_injected b @ [f]"
    "RxPackets (b_stats b') = RxPackets (b_stats b) + 1"
    using receive_inject [OF Cons.prems(2) _ step(1), of f peer] link Cons.prems(3)
    unfolding link_ok_def by (meson list.set_intros(1))
  show ?case
  proof (cases x)
    case True
    then show ?thesis using Cons.IH [of "fst (encode c MsgFrame f)" b'] step(3) b' Cons.prems(3)
      by (simp add: Let_def case_prod_beta del: MsgFrame_def deliver_run.simps)
  next
    case False
    then show ?thesis using Cons.IH [OF step(2) Cons.prems(2)] Cons.prems(3)
      by (simp add: case_prod_beta del: MsgFrame_def)
  qed
qed


lemma link_up_sample: "link_up (sample_transport m)"
  by (simp add: link_up_def conn_open_def sample_transport_def new_UDPConn_def)

lemma inject_ready_sample: "inject_ready (\<lambda>h f. Ret ()) (sample_bridge k)"
  by (simp add: inject_ready_def link_up_sample make_chan_def ChannelBufferSize_def)


section \<open>The shared receive buffer\<close>

lemma Decode_frame_size:
  "Decode c data = (c', Ret msg) \<Longrightarrow> msgType msg = MsgFrame \<Longrightarrow> length (Frame msg) \<le> 1514"
  by (auto simp: Decode_def parsePayload_def new_Message_def Let_def
      split: if_splits prod.splits outcome.splits option.splits)

text \<open>
  C19. A queued frame is not a copy. If a frame from the peer is waiting for injection and a datagram
  from anyone else arrives first, at least as long as the frame's datagram, then what is injected
  are that datagram's bytes at the frame's position, although its sender is then rejected and it
  carries no tag.
\<close>

theorem inject_overwritten:
  assumes "inject_ready wr b" and "Decode (b_codec b) data = (c, Ret msg)" and "msgType msg = MsgFrame"
    and "length data \<le> length evil" and "length evil \<le> recvBufSize" and "\<not> addrEqual (Some stranger) (Some peer)"
  shows "\<exists>b1 b2 b3. recvLoop_iter False (Some peer) (from_peer peer data now) b = Running b1 \<and>
     recvLoop_iter False (Some peer) (from_peer stranger evil now') b1 = Running b2 \<and>
     injectLoop_iter False wr b2 = Running b3 \<and>
     b_injected b3 = b_injected b @ [deref evil (payload_ref (b_codec b) data)] \<and>
     b3 = b1\<lparr>recvBuf := fill_buf evil (recvBuf b1), framesToInject := framesToInject b, b_injected := b_injected b3\<rparr>"
proof -
  let ?ref = "payload_ref (b_codec b) data"
  note ref = payload_ref_frame [OF assms(2,3)]
  define b1 where "b1 = handleFrame ?ref (b\<lparr>recvBuf := fill_buf data (recvBuf b), b_codec := c\<rparr>)"
  define b2 where "b2 = b1\<lparr>recvBuf := fill_buf evil (recvBuf b1)\<rparr>"
  have up: "link_up (b_transport b)" and q: "chan_buf (framesToInject b) = []" "0 < chan_cap (framesToInject b)"
    using assms(1) by (simp_all add: inject_ready_def)
  obtain cap where cap: "b_capture b = Some cap" "\<And>f. legal_frame f \<Longrightarrow> wr (handle cap) f = Ret ()"
    using assms(1) by (auto simp: inject_ready_def)
  have r1: "recvLoop_iter False (Some peer) (from_peer peer data now) b = Running b1"
    unfolding b1_def using recvLoop_frame [OF up _ assms(2,3)] assms(4,5) by simp
  have b1: "b_transport b1 = b_transport b" "b_capture b1 = b_capture b" "b_injected b1 = b_injected b"
    "framesToInject b1 = (framesToInject b)\<lparr>chan_buf := [?ref]\<rparr>"
    using q by (simp_all add: b1_def handleFrame_def Let_def chan_try_send_def)
  have r2: "recvLoop_iter False (Some peer) (from_peer stranger evil now') b1 = Running b2"
    using assms(5,6) Recv_up [OF up] by (simp add: recvLoop_iter_def Let_def b1 b2_def)
  have evil: "deref (recvBuf b2) ?ref = deref evil ?ref"
    using ref(2) assms(4) by (simp add: b2_def deref_def fill_buf_def)
  have "length (Frame msg) \<le> 1514" using Decode_frame_size [OF assms(2,3)] .
  then have legal: "legal_frame (deref evil ?ref)" and len: "14 \<le> length (deref evil ?ref)"
    using ref(2-4) assms(4) by (auto simp: legal_frame_def deref_def)
  define b3 where "b3 = b2\<lparr>framesToInject := (framesToInject b2)\<lparr>chan_buf := []\<rparr>,
     b_injected := b_injected b2 @ [deref evil ?ref]\<rparr>"
  have "injectLoop_iter False wr b2 = Running b3"
    unfolding b3_def using injectLoop_next [of b2 ?ref "[]" cap wr] b1 cap legal len evil by (simp add: b2_def)
  moreover have "(framesToInject b)\<lparr>chan_buf := []\<rparr> = framesToInject b" using q(1) by (cases "framesToInject b") simp
  ultimately show ?thesis using r1 r2 b1
    by (intro exI [of _ b1] exI [of _ b2] exI [of _ b3]) (simp add: b3_def b2_def)
qed

theorem inject_overwritten_witness:
  "\<exists>b1 b2 b3. recvLoop_iter False (Some sample_addr) (from_peer sample_addr (MsgFrame # replicate 14 1) 0) (sample_bridge []) = Running b1 \<and>
     recvLoop_iter False (Some sample_addr) (from_peer (sample_addr\<lparr>Port := 1\<rparr>) (0xFF # replicate 14 9) 0) b1 = Running b2 \<and>
     injectLoop_iter False (\<lambda>h f. Ret ()) b2 = Running b3 \<and> b_injected b3 = [replicate 14 9]"
proof -
  let ?data = "MsgFrame # replicate 14 1" and ?evil = "0xFF # replicate 14 9"
  have "Decode (b_codec (sample_bridge [])) ?data = (NewCodec [], Ret ((new_Message MsgFrame)\<lparr>Frame := replicate 14 1\<rparr>))"
    by (simp add: Decode_def NewCodec_def decode_insecure parsePayload_frame [unfolded MsgFrame_def])
  moreover have "\<not> addrEqual (Some (sample_addr\<lparr>Port := 1\<rparr>)) (Some sample_addr)"
    by (simp add: addrEqual_def sample_addr_def)
  moreover have "deref ?evil (payload_ref (b_codec (sample_bridge [])) ?data) = replicate 14 9"
    by (simp add: deref_def payload_ref_def NewCodec_def)
  ultimately show ?thesis
    using inject_overwritten [OF inject_ready_sample, of "[]" ?data "NewCodec []" _ ?evil "sample_addr\<lparr>Port := 1\<rparr>" sample_addr 0 0]
    by (fastforce simp: new_Message_def recvBufSize_def)
qed

section \<open>Ping and pong\<close>

lemma sendPing_first:
  assumes "pendingPing b = 0 \<or> sint (missedPongs b + 1) < 3"
  shows "\<exists>b'. sendPing now ok b = Ret b' \<and> pendingPing b' = now \<and>
     missedPongs b' = (if pendingPing b = 0 then missedPongs b else missedPongs b + 1) \<and>
     b_done b' = b_done b \<and> doneOnce b' = doneOnce b \<and> b_state b' = b_state b \<and> b_emitted b' = b_emitted b"
  using assms by (auto simp: sendPing_def sendPing_lock_def encodePing_def sendMsg_def Let_def case_prod_beta)

lemma unresponsive_message_3: "unresponsive_message 3 = ''peer unresponsive (missed 3 pongs)''"
  by code_simp

lemma sendPing_gives_up:
  assumes "pendingPing b \<noteq> 0" and "missedPongs b = 2" and "\<not> b_done b" and "\<not> doneOnce b"
    and "b_state b \<noteq> StateDisconnected"
  shows "sendPing now ok b = Ret (b\<lparr>missedPongs := 3, b_state := StateDisconnected, b_done := True, doneOnce := True,
     b_emitted := b_emitted b @ [(EventError, ErrorData ''peer unresponsive (missed 3 pongs)''),
                                 (EventStateChanged, StateChangedData ''DISCONNECTED'' [])]\<rparr>)"
  using assms
  by (simp add: sendPing_def sendPing_lock_def Let_def setState_def emit_def closeDoneOnce_def
      State_String_def unresponsive_message_3)

fun ping_run :: "(int64 \<times> bool) list \<Rightarrow> 'h Bridge \<Rightarrow> 'h Bridge loop_out" where
  "ping_run [] b = Running b"
| "ping_run ((now, ok) # ts) b =
     (case pingLoop_iter False Tick now ok b of Running b1 \<Rightarrow> ping_run ts b1 | r \<Rightarrow> r)"

definition same_status :: "'h Bridge \<Rightarrow> 'h Bridge \<Rightarrow> bool" where
  "same_status b b' \<longleftrightarrow> b_done b' = b_done b \<and> doneOnce b' = doneOnce b \<and> b_state b' = b_state b \<and>
     b_emitted b' = b_emitted b"

lemma pingLoop_tick:
  assumes "pendingPing b = 0 \<and> missedPongs b = 0 \<or> pendingPing b \<noteq> 0 \<and> missedPongs b = of_nat k \<and> k \<le> 1"
    and "now \<noteq> 0"
  shows "\<exists>b'. pingLoop_iter False Tick now ok b = Running b' \<and> pendingPing b' \<noteq> 0 \<and>
     missedPongs b' = (if pendingPing b = 0 then 0 else of_nat (Suc k)) \<and> same_status b b'"
proof -
  have "sint (missedPongs b + 1) < 3" if "pendingPing b \<noteq> 0"
  proof -
    have "k = 0 \<or> k = 1" using that assms(1) by auto
    then show ?thesis using that assms(1) by auto
  qed
  then obtain b' where "sendPing now ok b = Ret b'" "pendingPing b' = now"
    "missedPongs b' = (if pendingPing b = 0 then missedPongs b else missedPongs b + 1)" "same_status b b'"
    using sendPing_first [of b now ok] unfolding same_status_def by blast
  then show ?thesis using assms by (auto simp: pingLoop_iter_def)
qed

lemma ping_run_unanswered:
  assumes "pendingPing b \<noteq> 0" and "missedPongs b = of_nat k" and "k + length ts \<le> 2"
    and "\<forall>x \<in> set ts. fst x \<noteq> 0"
  shows "\<exists>b'. (\<forall>us. ping_run (ts @ us) b = ping_run us b') \<and> pendingPing b' \<noteq> 0 \<and>
     missedPongs b' = of_nat (k + length ts) \<and> same_status b b'"
  using assms
proof (induction ts arbitrary: b k)
  case Nil
  then show ?case by (intro exI [of _ b]) (simp add: same_status_def)
next
  case (Cons x ts)
  obtain b1 where b1: "pingLoop_iter False Tick (fst x) (snd x) b = Running b1" "pendingPing b1 \<noteq> 0"
    "missedPongs b1 = of_nat (Suc k)" "same_status b b1"
    using pingLoop_tick [of b k "fst x" "snd x"] Cons.prems by auto
  obtain b' where "\<forall>us. ping_run (ts @ us) b1 = ping_run us b'" "pendingPing b' \<noteq> 0"
    "missedPongs b' = of_nat (Suc k + length ts)" "same_status b1 b'"
    using Cons.IH [OF b1(2,3)] Cons.prems(3,4) by auto
  then show ?case using b1 by (intro exI [of _ b']) (cases x, auto simp: same_status_def)
qed

text \<open>
  C12. A silent peer is given up after exactly four ticks of the ping timer: the first sends a ping,
  the next two each count a missed answer and send another, and the fourth ends the session. Up to
  the third nothing else changes; at the fourth the error and the disconnection are announced, in
  this order, and \<^verbatim>\<open>done\<close> is closed.
\<close>

theorem ping_disconnect:
  assumes "pendingPing b = 0" and "missedPongs b = 0" and "\<not> b_done b" and "\<not> doneOnce b"
    and "b_state b = StateConnected" and "\<forall>x \<in> set ts. fst x \<noteq> 0" and "ts \<noteq> []" and "length ts \<le> 4"
  shows "\<exists>b'. ping_run ts b = Running b' \<and>
     (if length ts = 4
      then b_done b' \<and> b_state b' = StateDisconnected \<and>
           b_emitted b' = b_emitted b @ [(EventError, ErrorData ''peer unresponsive (missed 3 pongs)''),
                                         (EventStateChanged, StateChangedData ''DISCONNECTED'' [])]
      else missedPongs b' = of_nat (length ts - 1) \<and> pendingPing b' \<noteq> 0 \<and> same_status b b')"
proof -
  obtain x ys where ts: "ts = x # ys" using assms(7) by (cases ts) auto
  obtain b1 where b1: "pingLoop_iter False Tick (fst x) (snd x) b = Running b1" "pendingPing b1 \<noteq> 0"
    "missedPongs b1 = of_nat 0" "same_status b b1"
    using pingLoop_tick [of b 0 "fst x" "snd x"] assms ts by auto
  have run: "ping_run ts b = ping_run ys b1" using b1(1) by (cases x) (simp add: ts)
  show ?thesis
  proof (cases "length ts = 4")
    case True
    then obtain zs z where ys: "ys = zs @ [z]" and len: "length zs = 2" by (cases ys rule: rev_cases) (auto simp: ts)
    obtain b2 where b2: "\<forall>us. ping_run (zs @ us) b1 = ping_run us b2" "pendingPing b2 \<noteq> 0"
      "missedPongs b2 = of_nat 2" "same_status b1 b2"
      using ping_run_unanswered [OF b1(2,3), of zs] len assms(6) ts ys by auto
    then show ?thesis using run True assms(3-5) b1(4) sendPing_gives_up [of b2 "fst z" "snd z"]
      by (cases z) (simp add: ys same_status_def pingLoop_iter_def)
  next
    case False
    obtain b2 where "\<forall>us. ping_run (ys @ us) b1 = ping_run us b2" "pendingPing b2 \<noteq> 0"
      "missedPongs b2 = of_nat (length ys)" "same_status b1 b2"
      using ping_run_unanswered [OF b1(2,3), of ys] False assms(6,8) ts by auto
    moreover from this(1) have "ping_run ys b1 = Running b2" by (metis append_Nil2 ping_run.simps(1))
    ultimately show ?thesis using run False b1(4) ts by (simp add: same_status_def)
  qed
qed

theorem ping_disconnect_witness:
  "\<exists>b'. ping_run [(5, True), (6, False), (7, True), (8, True)] ((sample_bridge [])\<lparr>b_state := StateConnected\<rparr>) = Running b' \<and>
     b_done b' \<and> b_state b' = StateDisconnected"
  using ping_disconnect [of "(sample_bridge [])\<lparr>b_state := StateConnected\<rparr>"
      "[(5, True), (6, False), (7, True), (8, True)]"]
  by (auto simp del: ping_run.simps)

lemma length_encode_ping: "length (snd (EncodePing c ts)) \<le> recvBufSize" "length (snd (EncodePong c ts)) \<le> recvBufSize"
  by (cases "secureMode c"; simp add: EncodePing_def EncodePong_def encode_secure encode_insecure length_sealed recvBufSize_def)+

text \<open>The three legs: a ping leaves, it is answered, the answer is taken.\<close>

lemma ping_leaves:
  assumes "link_up (b_transport a)" and "pendingPing a = 0" and "EncodePing (b_codec a) now = (c, ping)"
  shows "\<exists>t. sendPing now True a = Ret (a\<lparr>pendingPing := now, b_codec := c, b_transport := t\<rparr>) \<and> link_up t \<and>
     sent (a\<lparr>pendingPing := now, b_codec := c, b_transport := t\<rparr>) = sent a @ [(ping, the (peerAddr (b_transport a)))]"
proof -
  let ?a = "a\<lparr>pendingPing := now, b_codec := c\<rparr>"
  obtain t where "sendMsg True ping ?a = (?a\<lparr>b_transport := t\<rparr>, True)" "link_up t"
    "sent (?a\<lparr>b_transport := t\<rparr>) = sent ?a @ [(ping, the (peerAddr (b_transport a)))]"
    using sendMsg_up [of ?a ping] assms(1) by auto
  then show ?thesis using assms(2,3)
    by (intro exI [of _ t]) (simp add: sendPing_def sendPing_lock_def encodePing_def sent_def)
qed

lemma ping_answered:
  assumes "link_up (b_transport b)" and "length ping \<le> recvBufSize"
    and "Decode (b_codec b) ping = (c, Ret ((new_Message MsgPing)\<lparr>Timestamp := ts\<rparr>))" and "EncodePong c ts = (c', pong)"
  shows "\<exists>b'. recvLoop_iter False (Some peer) (from_peer peer ping now) b = Running b' \<and>
     sent b' = sent b @ [(pong, the (peerAddr (b_transport b)))] \<and> b_stats b' = b_stats b \<and> b_state b' = b_state b \<and>
     framesToInject b' = framesToInject b"
proof -
  let ?b = "b\<lparr>recvBuf := fill_buf ping (recvBuf b), b_codec := c'\<rparr>"
  obtain t where t: "sendMsg True pong ?b = (?b\<lparr>b_transport := t\<rparr>, True)"
    "sent (?b\<lparr>b_transport := t\<rparr>) = sent ?b @ [(pong, the (peerAddr (b_transport b)))]"
    using sendMsg_up [of ?b pong] assms(1) by auto
  have "recvLoop_iter False (Some peer) (from_peer peer ping now) b = Running (?b\<lparr>b_transport := t\<rparr>)"
    using recvLoop_receives [OF assms(1) _ assms(2) _ assms(3), of "from_peer peer ping now" peer peer] assms(4) t(1)
    by (simp add: dispatch_def new_Message_def handlePing_def encodePong_def)
  then show ?thesis using t(2) by (intro exI [of _ "?b\<lparr>b_transport := t\<rparr>"]) (simp add: sent_def)
qed

lemma pong_taken:
  assumes "link_up (b_transport a)" and "length pong \<le> recvBufSize" and "pendingPing a = ts" and "ts \<noteq> 0"
    and "Decode (b_codec a) pong = (c, Ret ((new_Message MsgPong)\<lparr>Timestamp := ts\<rparr>))"
  shows "\<exists>a' d. recvLoop_iter False (Some peer) (from_peer peer pong now) a = Running a' \<and>
     pendingPing a' = 0 \<and> missedPongs a' = 0 \<and>
     b_stats a' = AddRTTSample (now - ts) (SetLastRTT (RTTCurrent (b_stats a)) (b_stats a)) \<and>
     RTTCurrent (b_stats a') = now - ts \<and> b_emitted a' = b_emitted a @ [(EventLatency, d)]"
proof -
  let ?a = "handlePong now ts (a\<lparr>recvBuf := fill_buf pong (recvBuf a), b_codec := c\<rparr>)"
  have "recvLoop_iter False (Some peer) (from_peer peer pong now) a = Running ?a"
    using recvLoop_receives [OF assms(1) _ assms(2) _ assms(5), of "from_peer peer pong now" peer peer]
    by (simp add: dispatch_def new_Message_def)
  moreover have "pendingPing ?a = 0" "missedPongs ?a = 0"
    "b_stats ?a = AddRTTSample (now - ts) (SetLastRTT (RTTCurrent (b_stats a)) (b_stats a))"
    "RTTCurrent (b_stats ?a) = now - ts" "\<exists>d. b_emitted ?a = b_emitted a @ [(EventLatency, d)]"
    using assms(3,4) by (simp_all add: handlePong_def Let_def emit_def GetRTTCurrent_def AddRTTSample_def)
  ultimately show ?thesis by blast
qed

text \<open>
  C10. A ping measures the round trip: when a bridge with no ping outstanding sends a ping at \<open>t0\<close>,
  the other bridge receives it and answers, and the answer arrives at \<open>t1\<close>, then the first bridge
  has recorded exactly \<open>t1 - t0\<close> as its newest sample, has no ping outstanding and no missed answers,
  and has announced the latency; the other bridge has sent one datagram and changed nothing else but
  its codec and buffer.
\<close>

theorem ping_pong_roundtrip:
  assumes "paired (b_codec a) (b_codec b)" and "window_open (b_codec a) (b_codec b)"
    and "window_open (b_codec b) (b_codec a)" and "link_up (b_transport a)" and "link_up (b_transport b)"
    and "pendingPing a = 0" and "t0 \<noteq> 0"
  shows "\<exists>a1 b1 a2 ping pong d.
     sendPing t0 True a = Ret a1 \<and> sent a1 = sent a @ [(ping, the (peerAddr (b_transport a)))] \<and>
     recvLoop_iter False (Some pa) (from_peer pa ping now) b = Running b1 \<and>
     sent b1 = sent b @ [(pong, the (peerAddr (b_transport b)))] \<and>
     recvLoop_iter False (Some pb) (from_peer pb pong t1) a1 = Running a2 \<and>
     pendingPing a2 = 0 \<and> missedPongs a2 = 0 \<and>
     b_stats a2 = AddRTTSample (t1 - t0) (SetLastRTT (RTTCurrent (b_stats a)) (b_stats a)) \<and>
     RTTCurrent (b_stats a2) = t1 - t0 \<and> b_emitted a2 = b_emitted a @ [(EventLatency, d)] \<and>
     b_stats b1 = b_stats b \<and> b_state b1 = b_state b \<and> framesToInject b1 = framesToInject b"
proof -
  obtain ca ping where ping: "EncodePing (b_codec a) t0 = (ca, ping)" by fastforce
  let ?cb = "after_accept (b_codec a) MsgPing (b_codec b)"
  obtain cb pong where pong: "EncodePong ?cb t0 = (cb, pong)" by fastforce
  have len: "length ping \<le> recvBufSize" "length pong \<le> recvBufSize"
    using length_encode_ping(1) [of "b_codec a" t0] length_encode_ping(2) [of ?cb t0] ping pong by simp_all
  have dp: "Decode (b_codec b) ping = (?cb, Ret ((new_Message MsgPing)\<lparr>Timestamp := t0\<rparr>))"
    using control_roundtrip [OF assms(1,2), of t0] ping by simp
  have "paired ?cb ca" "window_open ?cb ca"
    using assms(1,3) ping encode_keeps [of "b_codec a" MsgPing "PutUint64 t0"]
    by (auto simp: paired_def window_open_def after_accept_def EncodePing_def)
  then have dq: "Decode ca pong = (after_accept ?cb MsgPong ca, Ret ((new_Message MsgPong)\<lparr>Timestamp := t0\<rparr>))"
    using control_roundtrip [of ?cb ca t0] pong by simp
  obtain t where t: "sendPing t0 True a = Ret (a\<lparr>pendingPing := t0, b_codec := ca, b_transport := t\<rparr>)" "link_up t"
    "sent (a\<lparr>pendingPing := t0, b_codec := ca, b_transport := t\<rparr>) = sent a @ [(ping, the (peerAddr (b_transport a)))]"
    using ping_leaves [OF assms(4,6) ping] by blast
  show ?thesis
    using t ping_answered [OF assms(5) len(1) dp pong, of pa now]
      pong_taken [of "a\<lparr>pendingPing := t0, b_codec := ca, b_transport := t\<rparr>" pong t0 _ pb t1] len(2) dq assms(7)
    by auto
qed

theorem ping_pong_roundtrip_witness:
  "\<exists>a1 b1 a2 ping pong. sendPing 5 True (sample_bridge [7]) = Ret a1 \<and> sent a1 = [(ping, sample_addr)] \<and>
     recvLoop_iter False (Some sample_addr) (from_peer sample_addr ping 0) (sample_bridge [7]) = Running b1 \<and>
     sent b1 = [(pong, sample_addr)] \<and>
     recvLoop_iter False (Some sample_addr) (from_peer sample_addr pong 105) a1 = Running a2 \<and>
     RTTCurrent (b_stats a2) = 100"
proof -
  have "paired (b_codec (sample_bridge [7])) (b_codec (sample_bridge [7]))"
    and "window_open (b_codec (sample_bridge [7])) (b_codec (sample_bridge [7]))"
    and "link_up (b_transport (sample_bridge [7]))" and "sent (sample_bridge [7]) = []"
    and "the (peerAddr (b_transport (sample_bridge [7]))) = sample_addr"
    by (simp_all add: NewCodec_paired link_up_sample sent_def) (simp_all add: sample_transport_def new_UDPConn_def)
  then show ?thesis
    using ping_pong_roundtrip [of "sample_bridge [7]" "sample_bridge [7]" 5 sample_addr 0 sample_addr 105] by force
qed

end
