(* ===== verification/Bridge_Run.thy ===== *)
theory Bridge_Run
  imports Bridge_Traffic
begin

text \<open>
  \<^verbatim>\<open>Run\<close> after the handshake: the goroutines it starts, the wait of the calling goroutine and its
  two ways out, as one step relation. A step is what one goroutine does up to its next operation on
  shared data whose order against the others matters: taking a nonce and writing to the socket are
  two steps of the same goroutine, as are looking at the context and reading.
\<close>

section \<open>State\<close>

datatype cap_pc = CapWaiting | CapCheck | CapReading | CapGone
datatype send_pc = SendSelect | SendReady bytes nat | SendGone
datatype recv_pc = RecvCheck | RecvReading | PongReady bytes | RecvGone
datatype inj_pc = InjWaiting | InjSelect | InjGone
datatype ping_pc = PingSelect | PingReady bytes | PingGone
datatype svc_pc = SvcSelect | SvcGone

text \<open>
  The calling goroutine: the first \<^verbatim>\<open>select\<close>, the second, the steps of the branch for a peer that
  disconnected, the steps of the branch for a shutdown, and the return with \<^verbatim>\<open>Run\<close>'s result.
\<close>

datatype main_pc =
    Selecting | Deciding
  | PeerClose | PeerCapture | PeerWait
  | ByeSend | DoneClose | ShutClose | ShutCapture | ShutWait
  | Returned "run_error option"

record 'h Run =
  bridge :: "'h Bridge"
  ctxDone :: bool
  recvPeer :: "UDPAddr option"
  capPc :: cap_pc
  sendPc :: send_pc
  recvPc :: recv_pc
  injPc :: inj_pc
  pingPc :: ping_pc
  statsPc :: svc_pc
  stdinPc :: svc_pc
  mainPc :: main_pc
  crashed :: bool

text \<open>The state right after the goroutines are started; the statistics loop only with an interval.\<close>

definition Run_start :: "bool \<Rightarrow> 'h Bridge \<Rightarrow> 'h Run" where
  "Run_start ctx b =
     \<lparr>bridge = b, ctxDone = ctx, recvPeer = PeerAddr (b_transport b), capPc = CapWaiting,
      sendPc = SendSelect, recvPc = RecvCheck, injPc = InjWaiting, pingPc = PingSelect,
      statsPc = (if 0 < sint (b_statsInterval b) then SvcSelect else SvcGone), stdinPc = SvcSelect,
      mainPc = Selecting, crashed = False\<rparr>"

text \<open>What \<^verbatim>\<open>wg.Wait\<close> waits for.\<close>

definition all_gone :: "'h Run \<Rightarrow> bool" where
  "all_gone s \<longleftrightarrow> capPc s = CapGone \<and> sendPc s = SendGone \<and> recvPc s = RecvGone \<and> injPc s = InjGone \<and>
     pingPc s = PingGone \<and> statsPc s = SvcGone \<and> stdinPc s = SvcGone"

text \<open>The ping that an iteration of the receive loop reads, if it reads one.\<close>

definition recv_ping :: "UDPAddr option \<Rightarrow> recv_obs \<Rightarrow> 'h Bridge \<Rightarrow> ('h Bridge \<times> int64) option" where
  "recv_ping peer ob b =
     (case Recv (r_read ob) (b_transport b) of
        Received packet addr \<Rightarrow>
          (let data = take recvBufSize packet; b1 = b\<lparr>recvBuf := fill_buf data (recvBuf b)\<rparr> in
           if peer \<noteq> None \<and> \<not> addrEqual (Some addr) peer then None
           else case recvLoop_decode data b1 of
             (b2, Ret msg) \<Rightarrow> if msgType msg = MsgPing then Some (b2, Timestamp msg) else None
           | _ \<Rightarrow> None)
      | _ \<Rightarrow> None)"

text \<open>Answering in two steps is what the loop body does in one.\<close>

lemma recv_ping_iter:
  "recv_ping peer ob b = Some (b2, ts) \<Longrightarrow>
   recvLoop_iter False peer ob b = Running (handlePing (r_write ob) ts b2)"
  by (auto simp: recv_ping_def recvLoop_iter_def Let_def dispatch_def
      split: recv_result.splits if_splits prod.splits outcome.splits)

section \<open>Steps\<close>

text \<open>
  The capture library's possible behaviours: which reads and which writes may happen. The caller's
  context may be cancelled and a capture may be set at any time.
\<close>

record 'h pcap_io =
  reads :: "('h option \<Rightarrow> (pcap_error, bytes) outcome) set"
  writes :: "('h option \<Rightarrow> bytes \<Rightarrow> (capture_error, unit) outcome) set"

text \<open>Steps of the goroutines, but for those below.\<close>

inductive goroutine_step :: "'h pcap_io \<Rightarrow> 'h Run \<Rightarrow> 'h Run \<Rightarrow> bool" for io where
  CapExit: "capPc s = CapWaiting \<or> capPc s = CapCheck \<Longrightarrow> ctxDone s \<Longrightarrow>
    goroutine_step io s (s\<lparr>capPc := CapGone\<rparr>)"
| CapReady: "capPc s = CapWaiting \<Longrightarrow> captureReady (bridge s) \<Longrightarrow>
    goroutine_step io s (s\<lparr>capPc := CapCheck\<rparr>)"
| CapPoll: "capPc s = CapCheck \<Longrightarrow> \<not> ctxDone s \<Longrightarrow> goroutine_step io s (s\<lparr>capPc := CapReading\<rparr>)"
| CapRead: "capPc s = CapReading \<Longrightarrow> rd \<in> reads io \<Longrightarrow>
    captureLoop_iter False rd (bridge s) = Running b \<Longrightarrow> goroutine_step io s (s\<lparr>bridge := b, capPc := CapCheck\<rparr>)"
| CapEnd: "capPc s = CapReading \<Longrightarrow> rd \<in> reads io \<Longrightarrow>
    captureLoop_iter False rd (bridge s) = Exited b \<Longrightarrow> goroutine_step io s (s\<lparr>bridge := b, capPc := CapGone\<rparr>)"
| CapCrash: "capPc s = CapReading \<Longrightarrow> rd \<in> reads io \<Longrightarrow>
    captureLoop_iter False rd (bridge s) = Crashed \<Longrightarrow> goroutine_step io s (s\<lparr>crashed := True\<rparr>)"
| SendExit: "sendPc s = SendSelect \<Longrightarrow> ctxDone s \<Longrightarrow> goroutine_step io s (s\<lparr>sendPc := SendGone\<rparr>)"
| SendEncode: "sendPc s = SendSelect \<Longrightarrow> chan_recv (framesToSend (bridge s)) = Some (frame, ch) \<Longrightarrow>
    sendLoop_encode frame ((bridge s)\<lparr>framesToSend := ch\<rparr>) = (b, m) \<Longrightarrow>
    goroutine_step io s (s\<lparr>bridge := b, sendPc := (case m of None \<Rightarrow> SendSelect | Some d \<Rightarrow> SendReady d (length frame))\<rparr>)"
| SendWrite: "sendPc s = SendReady m len \<Longrightarrow>
    goroutine_step io s (s\<lparr>bridge := sendLoop_send ok m len (bridge s), sendPc := SendSelect\<rparr>)"
| RecvExit: "recvPc s = RecvCheck \<Longrightarrow> ctxDone s \<Longrightarrow> goroutine_step io s (s\<lparr>recvPc := RecvGone\<rparr>)"
| RecvPoll: "recvPc s = RecvCheck \<Longrightarrow> \<not> ctxDone s \<Longrightarrow> goroutine_step io s (s\<lparr>recvPc := RecvReading\<rparr>)"
| RecvPing: "recvPc s = RecvReading \<Longrightarrow> recv_ping (recvPeer s) ob (bridge s) = Some (b2, ts) \<Longrightarrow>
    encodePong ts b2 = (b, pong) \<Longrightarrow> goroutine_step io s (s\<lparr>bridge := b, recvPc := PongReady pong\<rparr>)"
| PongWrite: "recvPc s = PongReady pong \<Longrightarrow>
    goroutine_step io s (s\<lparr>bridge := fst (sendMsg ok pong (bridge s)), recvPc := RecvCheck\<rparr>)"
| RecvOther: "recvPc s = RecvReading \<Longrightarrow> r_done_after ob = ctxDone s \<Longrightarrow>
    recv_ping (recvPeer s) ob (bridge s) = None \<Longrightarrow>
    recvLoop_iter False (recvPeer s) ob (bridge s) = Running b \<Longrightarrow>
    goroutine_step io s (s\<lparr>bridge := b, recvPc := RecvCheck\<rparr>)"
| RecvEnd: "recvPc s = RecvReading \<Longrightarrow> r_done_after ob = ctxDone s \<Longrightarrow>
    recvLoop_iter False (recvPeer s) ob (bridge s) = Exited b \<Longrightarrow>
    goroutine_step io s (s\<lparr>bridge := b, recvPc := RecvGone\<rparr>)"
| RecvCrash: "recvPc s = RecvReading \<Longrightarrow>
    recvLoop_iter False (recvPeer s) ob (bridge s) = Crashed \<Longrightarrow> goroutine_step io s (s\<lparr>crashed := True\<rparr>)"
| InjExit: "injPc s = InjWaiting \<or> injPc s = InjSelect \<Longrightarrow> ctxDone s \<Longrightarrow>
    goroutine_step io s (s\<lparr>injPc := InjGone\<rparr>)"
| InjReady: "injPc s = InjWaiting \<Longrightarrow> captureReady (bridge s) \<Longrightarrow>
    goroutine_step io s (s\<lparr>injPc := InjSelect\<rparr>)"
| InjFrame: "injPc s = InjSelect \<Longrightarrow> wr \<in> writes io \<Longrightarrow>
    injectLoop_iter False wr (bridge s) = Running b \<Longrightarrow> goroutine_step io s (s\<lparr>bridge := b\<rparr>)"
| InjCrash: "injPc s = InjSelect \<Longrightarrow> wr \<in> writes io \<Longrightarrow>
    injectLoop_iter False wr (bridge s) = Crashed \<Longrightarrow> goroutine_step io s (s\<lparr>crashed := True\<rparr>)"
| PingExit: "pingPc s = PingSelect \<Longrightarrow> ctxDone s \<Longrightarrow> goroutine_step io s (s\<lparr>pingPc := PingGone\<rparr>)"
| PingWrite: "pingPc s = PingReady m \<Longrightarrow>
    goroutine_step io s (s\<lparr>bridge := fst (sendMsg ok m (bridge s)), pingPc := PingSelect\<rparr>)"
| StatsExit: "statsPc s = SvcSelect \<Longrightarrow> ctxDone s \<Longrightarrow> goroutine_step io s (s\<lparr>statsPc := SvcGone\<rparr>)"
| StdinExit: "stdinPc s = SvcSelect \<Longrightarrow> ctxDone s \<Longrightarrow> goroutine_step io s (s\<lparr>stdinPc := SvcGone\<rparr>)"

text \<open>
  Steps that an event from outside sets off: the two tickers, and the Enter key, which the
  statistics loop treats like a tick of its own.
\<close>

inductive tick_step :: "'h Run \<Rightarrow> 'h Run \<Rightarrow> bool" where
  PingTick: "pingPc s = PingSelect \<Longrightarrow> sendPing_lock now (bridge s) = Ret (b1, Some ts) \<Longrightarrow>
    encodePing ts b1 = (b, m) \<Longrightarrow> tick_step s (s\<lparr>bridge := b, pingPc := PingReady m\<rparr>)"
| PingGiveUp: "pingPc s = PingSelect \<Longrightarrow> sendPing_lock now (bridge s) = Ret (b, None) \<Longrightarrow>
    tick_step s (s\<lparr>bridge := b\<rparr>)"
| PingCrash: "pingPc s = PingSelect \<Longrightarrow> sendPing_lock now (bridge s) = Panic \<Longrightarrow>
    tick_step s (s\<lparr>crashed := True\<rparr>)"
| StatsPrint: "statsPc s = SvcSelect \<Longrightarrow> tick_step s (s\<lparr>bridge := fst (printStats (bridge s))\<rparr>)"

text \<open>Steps of the calling goroutine.\<close>

inductive main_step :: "'h Run \<Rightarrow> 'h Run \<Rightarrow> bool" where
  MainSelect: "mainPc s = Selecting \<Longrightarrow> ctxDone s \<or> b_done (bridge s) \<Longrightarrow>
    main_step s (s\<lparr>mainPc := Deciding\<rparr>)"
| MainDecide: "mainPc s = Deciding \<Longrightarrow>
    main_step s (s\<lparr>mainPc := (if b_done (bridge s) then PeerClose else ByeSend)\<rparr>)"
| MainPeerClose: "mainPc s = PeerClose \<Longrightarrow>
    main_step s (s\<lparr>bridge := closeTransport (bridge s), mainPc := PeerCapture\<rparr>)"
| MainPeerCapture: "mainPc s = PeerCapture \<Longrightarrow>
    main_step s (s\<lparr>bridge := closeCapture (bridge s), mainPc := PeerWait\<rparr>)"
| MainPeerReturn: "mainPc s = PeerWait \<Longrightarrow> all_gone s \<Longrightarrow>
    main_step s (s\<lparr>bridge := setState StateDisconnected (bridge s), mainPc := Returned (Some ErrPeerDisconnected)\<rparr>)"
| MainBye: "mainPc s = ByeSend \<Longrightarrow>
    main_step s (s\<lparr>bridge := teardown_bye ok (bridge s), mainPc := DoneClose\<rparr>)"
| MainDone: "mainPc s = DoneClose \<Longrightarrow> closeDone (bridge s) = Ret b \<Longrightarrow>
    main_step s (s\<lparr>bridge := b, mainPc := ShutClose\<rparr>)"
| MainDonePanic: "mainPc s = DoneClose \<Longrightarrow> closeDone (bridge s) = Panic \<Longrightarrow>
    main_step s (s\<lparr>crashed := True\<rparr>)"
| MainShutClose: "mainPc s = ShutClose \<Longrightarrow>
    main_step s (s\<lparr>bridge := closeTransport (bridge s), mainPc := ShutCapture\<rparr>)"
| MainShutCapture: "mainPc s = ShutCapture \<Longrightarrow>
    main_step s (s\<lparr>bridge := closeCapture (bridge s), mainPc := ShutWait\<rparr>)"
| MainShutReturn: "mainPc s = ShutWait \<Longrightarrow> all_gone s \<Longrightarrow>
    main_step s (s\<lparr>bridge := setState StateDisconnected (bridge s), mainPc := Returned None\<rparr>)"

text \<open>
  A run: until a crash, any goroutine or the caller takes a step, a timer ticks, the context is
  cancelled, or a capture is set.
\<close>

inductive run_step :: "'h pcap_io \<Rightarrow> 'h Run \<Rightarrow> 'h Run \<Rightarrow> bool" for io where
  Goroutine: "\<not> crashed s \<Longrightarrow> goroutine_step io s t \<Longrightarrow> run_step io s t"
| Ticker: "\<not> crashed s \<Longrightarrow> tick_step s t \<Longrightarrow> run_step io s t"
| Caller: "\<not> crashed s \<Longrightarrow> main_step s t \<Longrightarrow> run_step io s t"
| Cancel: "\<not> crashed s \<Longrightarrow> run_step io s (s\<lparr>ctxDone := True\<rparr>)"
| SetCap: "\<not> crashed s \<Longrightarrow> SetCapture (Some cap) (bridge s) = Ret b \<Longrightarrow> run_step io s (s\<lparr>bridge := b\<rparr>)"

section \<open>What the loop bodies leave alone\<close>

text \<open>A closed transport stays closed, \<^verbatim>\<open>done\<close> stays closed, and the capture is not touched.\<close>

definition keeps :: "'h Bridge \<Rightarrow> 'h Bridge \<Rightarrow> bool" where
  "keeps b b' \<longleftrightarrow> closed (b_transport b') = closed (b_transport b) \<and> (b_done b \<longrightarrow> b_done b') \<and>
     b_capture b' = b_capture b \<and> b_statsInterval b' = b_statsInterval b"

lemma closed_Send [simp]: "closed (fst (Send ok t m)) = closed t"
  by (simp add: Send_def case_prod_beta)

lemma keeps_simps [simp]:
  "keeps b b" "keeps b (setState st b)" "keeps b (emit t d b)" "keeps b (fst (sendMsg ok m b))"
  "keeps b (sendLoop_send ok m n b)" "keeps b (fst (sendLoop_encode f b))" "keeps b (handlePing ok ts b)"
  "keeps b (handlePong now ts b)" "keeps b (handleFrame ref b)" "keeps b (fst (printStats b))"
  by (simp_all add: keeps_def setState_def emit_def sendMsg_def sendLoop_send_def sendLoop_encode_def
      handlePing_def encodePong_def handlePong_def handleFrame_def printStats_def Let_def case_prod_beta
      split: bool.splits outcome.splits prod.splits)

lemma keeps_trans: "keeps a b \<Longrightarrow> keeps b c \<Longrightarrow> keeps a c"
  by (auto simp: keeps_def)

lemma keeps_frame [simp]:
  "keeps b (b'\<lparr>recvBuf := x\<rparr>) = keeps b b'" "keeps b (b'\<lparr>b_codec := c\<rparr>) = keeps b b'"
  "keeps b (b'\<lparr>framesToSend := ch\<rparr>) = keeps b b'" "keeps b (b'\<lparr>framesToInject := ch'\<rparr>) = keeps b b'"
  "keeps b (b'\<lparr>b_injected := fs\<rparr>) = keeps b b'" "keeps b (b'\<lparr>pendingPing := ts\<rparr>) = keeps b b'"
  "keeps b (b'\<lparr>missedPongs := n\<rparr>) = keeps b b'"
  by (simp_all add: keeps_def)

lemma keeps_once: "closeDoneOnce b = Ret b' \<Longrightarrow> keeps b b'"
  by (auto simp: closeDoneOnce_def keeps_def split: if_splits)

lemma keeps_bye: "handleBye b = Ret b' \<Longrightarrow> keeps b b'"
  unfolding handleBye_def using keeps_once keeps_trans keeps_simps(2) by blast

lemma keeps_dispatch: "dispatch ob ref msg b = Ret b' \<Longrightarrow> keeps b b'"
  by (auto simp: dispatch_def keeps_bye split: if_splits)

lemma keeps_decode: "recvLoop_decode data b = (b', r) \<Longrightarrow> keeps b0 b' = keeps b0 b"
  by (auto simp: recvLoop_decode_def split: prod.splits)

lemma keeps_recv: "loop_pred (keeps b) (recvLoop_iter d peer ob b)"
proof -
  have "keeps b b3" if "recvLoop_decode data (b\<lparr>recvBuf := buf\<rparr>) = (b2, Ret msg)" "dispatch ob ref msg b2 = Ret b3"
    for data buf b2 msg ref b3
    using keeps_decode [OF that(1), of b] keeps_dispatch [OF that(2)] keeps_trans by auto
  moreover have "keeps b b2" if "recvLoop_decode data (b\<lparr>recvBuf := buf\<rparr>) = (b2, r)" for data buf b2 r
    using keeps_decode [OF that, of b] by simp
  ultimately show ?thesis
    by (auto simp: recvLoop_iter_def Let_def split: recv_result.splits prod.splits outcome.splits)
qed

lemma keeps_ping: "recv_ping peer ob b = Some (b2, ts) \<Longrightarrow> keeps b b2"
  by (auto simp: recv_ping_def Let_def keeps_decode split: recv_result.splits if_splits prod.splits outcome.splits)

lemma keeps_capture: "loop_pred (keeps b) (captureLoop_iter d rd b)"
  by (auto simp: captureLoop_iter_def split: option.splits outcome.splits)

lemma keeps_inject: "loop_pred (keeps b) (injectLoop_iter d wr b)"
  by (auto simp: injectLoop_iter_def Let_def split: option.splits outcome.splits)

lemma keeps_lock: "sendPing_lock now b = Ret (b1, ts) \<Longrightarrow> keeps b b1"
proof (cases "pendingPing b \<noteq> 0 \<and> 3 \<le> sint (missedPongs b + 1)")
  case True
  let ?b0 = "setState StateDisconnected (emit EventError (ErrorData (unresponsive_message (missedPongs b + 1)))
       (b\<lparr>missedPongs := missedPongs b + 1\<rparr>))"
  assume "sendPing_lock now b = Ret (b1, ts)"
  with True have "closeDoneOnce ?b0 = Ret b1"
    by (auto simp: sendPing_lock_def Let_def split: outcome.splits)
  then have "keeps ?b0 b1" by (rule keeps_once)
  moreover have "keeps b ?b0" using keeps_trans keeps_simps(1-3) keeps_frame(7) by metis
  ultimately show ?thesis using keeps_trans by blast
qed (auto simp: sendPing_lock_def Let_def)

lemma keeps_encode:
  "encodePing ts b = (b', m) \<Longrightarrow> keeps b0 b' = keeps b0 b" "encodePong ts b = (b', m) \<Longrightarrow> keeps b0 b' = keeps b0 b"
  "keeps b (teardown_bye ok b)"
  by (auto simp: encodePing_def encodePong_def teardown_bye_def SendBye_def keeps_def Let_def split: prod.splits)

section \<open>The invariant of a run\<close>

definition capture_closed :: "'h Bridge \<Rightarrow> bool" where
  "capture_closed b \<longleftrightarrow> (\<forall>cap. b_capture b = Some cap \<longrightarrow> handle cap = None)"

text \<open>
  The state of the bridge is well formed; a goroutine other than the capture loop and an unused
  statistics loop is gone only after a cancellation; the calling goroutine is past a teardown step
  only when the step has happened, and has returned only when every goroutine is gone.
\<close>

definition gone_ok :: "'h Run \<Rightarrow> bool" where
  "gone_ok s \<longleftrightarrow> (sendPc s = SendGone \<or> recvPc s = RecvGone \<or> injPc s = InjGone \<or> pingPc s = PingGone \<or>
      stdinPc s = SvcGone \<longrightarrow> ctxDone s)"

definition main_ok :: "bool \<Rightarrow> 'h Run \<Rightarrow> bool" where
  "main_ok has s \<longleftrightarrow>
     (let b = bridge s; up = (has \<longrightarrow> capture_closed b) in
      case mainPc s of
        Selecting \<Rightarrow> True
      | Deciding \<Rightarrow> ctxDone s \<or> b_done b
      | PeerClose \<Rightarrow> b_done b
      | PeerCapture \<Rightarrow> b_done b \<and> closed (b_transport b)
      | PeerWait \<Rightarrow> b_done b \<and> closed (b_transport b) \<and> up
      | ByeSend \<Rightarrow> ctxDone s
      | DoneClose \<Rightarrow> ctxDone s
      | ShutClose \<Rightarrow> ctxDone s \<and> b_done b
      | ShutCapture \<Rightarrow> ctxDone s \<and> b_done b \<and> closed (b_transport b)
      | ShutWait \<Rightarrow> ctxDone s \<and> b_done b \<and> closed (b_transport b) \<and> up
      | Returned r \<Rightarrow> ctxDone s \<and> b_done b \<and> closed (b_transport b) \<and> up \<and> all_gone s \<and> b_state b = StateDisconnected)"

definition run_ok :: "bool \<Rightarrow> 'h Run \<Rightarrow> bool" where
  "run_ok has s \<longleftrightarrow> bridge_ok (bridge s) \<and> (has \<longrightarrow> b_capture (bridge s) \<noteq> None) \<and> gone_ok s \<and> main_ok has s"

text \<open>A step of a goroutine that keeps the bridge in the sense above keeps the caller's part.\<close>

lemma main_ok_keeps:
  assumes "main_ok has s" and "keeps (bridge s) (bridge t)" and "\<not> all_gone s"
    and "mainPc t = mainPc s" and "ctxDone t = ctxDone s"
  shows "main_ok has t"
  using assms by (auto simp: main_ok_def keeps_def capture_closed_def Let_def split: main_pc.splits)

text \<open>What every step of a goroutine does to the bridge.\<close>

definition safe :: "'h Bridge \<Rightarrow> 'h Bridge \<Rightarrow> bool" where
  "safe b b' \<longleftrightarrow> (bridge_ok b \<longrightarrow> bridge_ok b') \<and> keeps b b'"

lemma safe_refl [simp]: "safe b b"
  by (simp add: safe_def)

lemma safe_loop:
  assumes "bridge_ok b \<Longrightarrow> loop_pred bridge_ok r" and "loop_pred (keeps b) r" and "r = Running b' \<or> r = Exited b'"
  shows "safe b b'"
  using assms by (auto simp: safe_def)

lemmas safe_loops =
  safe_loop [OF captureLoop_ok keeps_capture] safe_loop [OF recvLoop_ok keeps_recv]
  safe_loop [OF injectLoop_ok keeps_inject]

lemma safe_calls [simp]:
  "safe b (fst (sendMsg ok m b))" "safe b (sendLoop_send ok m n b)" "safe b (fst (printStats b))"
  by (simp_all add: safe_def sendMsg_ok sendLoop_send_ok)

lemma safe_lock: "sendPing_lock now b = Ret (b', r) \<Longrightarrow> safe b b'"
  using sendPing_lock_ok keeps_lock unfolding safe_def by blast

lemma safe_encode:
  "encodePing ts b = (b', m) \<Longrightarrow> safe b0 b' = safe b0 b" "encodePong ts b = (b', m) \<Longrightarrow> safe b0 b' = safe b0 b"
  by (auto simp: safe_def encodePing_def encodePong_def split: prod.splits)

lemma safe_send:
  assumes "chan_recv (framesToSend b) = Some (frame, ch)" and "sendLoop_encode frame (b\<lparr>framesToSend := ch\<rparr>) = (b', m)"
  shows "safe b b'"
proof -
  have "bridge_ok (b\<lparr>framesToSend := ch\<rparr>)" if "bridge_ok b"
    using that chan_ok_recv [OF assms(1)] gochan.recv_bounded [OF assms(1)]
    by (intro bridge_ok_sendq) (auto simp: bridge_ok_def chan_ok_def)
  then show ?thesis
    using assms(2) sendLoop_encode_ok [of frame "b\<lparr>framesToSend := ch\<rparr>"]
      keeps_simps(6) [of "b\<lparr>framesToSend := ch\<rparr>" frame]
    by (auto simp: safe_def keeps_def)
qed

lemma safe_ping:
  assumes "recv_ping peer ob b = Some (b', ts)"
  shows "safe b b'"
proof -
  obtain packet c where "b' = b\<lparr>recvBuf := fill_buf (take recvBufSize packet) (recvBuf b), b_codec := c\<rparr>"
    using assms by (auto simp: recv_ping_def recvLoop_decode_def Let_def
        split: recv_result.splits if_splits prod.splits outcome.splits)
  then show ?thesis using bridge_ok_recvBuf [of b "take recvBufSize packet"] by (simp add: safe_def)
qed

lemma goroutine_alive: "goroutine_step io s t \<Longrightarrow> \<not> all_gone s"
  by (cases rule: goroutine_step.cases) (auto simp: all_gone_def)

lemma goroutine_main: "goroutine_step io s t \<Longrightarrow> mainPc t = mainPc s \<and> ctxDone t = ctxDone s \<and> recvPeer t = recvPeer s"
  by (cases rule: goroutine_step.cases) auto

lemma goroutine_gone_ok:
  assumes "goroutine_step io s t" and "gone_ok s"
  shows "gone_ok t"
  using assms
proof cases
  case (RecvEnd ob b)
  have "ctxDone s" using RecvEnd(3,4)
    by (auto simp: recvLoop_iter_def Let_def split: recv_result.splits if_splits prod.splits outcome.splits)
  with RecvEnd show ?thesis by (simp add: gone_ok_def)
qed (auto simp: gone_ok_def split: option.splits)

lemma goroutine_safe:
  assumes "goroutine_step io s t"
  shows "safe (bridge s) (bridge t)"
  using assms
proof cases
  case (RecvPing ob b2 ts b pong)
  then show ?thesis using safe_ping safe_encode(2) by fastforce
qed (auto intro: safe_loops safe_send)

lemma tick_alive: "tick_step s t \<Longrightarrow> \<not> all_gone s"
  by (cases rule: tick_step.cases) (auto simp: all_gone_def)

lemma tick_main: "tick_step s t \<Longrightarrow> mainPc t = mainPc s \<and> ctxDone t = ctxDone s \<and> recvPeer t = recvPeer s"
  by (cases rule: tick_step.cases) auto

lemma tick_gone_ok: "tick_step s t \<Longrightarrow> gone_ok s \<Longrightarrow> gone_ok t"
  by (cases rule: tick_step.cases) (auto simp: gone_ok_def)

lemma tick_safe:
  assumes "tick_step s t"
  shows "safe (bridge s) (bridge t)"
  using assms
proof cases
  case (PingTick now b1 ts b m)
  then show ?thesis using safe_lock safe_encode(1) by fastforce
qed (auto intro: safe_lock)

lemma capture_closed_close [simp]: "capture_closed (closeCapture b)"
  by (auto simp: capture_closed_def closeCapture_def Capture_Close_handle)

lemma all_gone_update [simp]:
  "all_gone (s\<lparr>mainPc := m\<rparr>) = all_gone s" "all_gone (s\<lparr>bridge := b\<rparr>) = all_gone s"
  "all_gone (s\<lparr>ctxDone := d\<rparr>) = all_gone s" "all_gone (s\<lparr>crashed := x\<rparr>) = all_gone s"
  by (simp_all add: all_gone_def)

lemma main_bridge_ok:
  assumes "main_step s t" and "bridge_ok (bridge s)"
  shows "bridge_ok (bridge t)"
  using assms
proof cases
  case (MainDone b)
  then show ?thesis using assms(2) bridge_ok_closeDone by auto
qed (auto intro: bridge_ok_setState teardown_bye_ok closeTransport_ok)

lemma main_capture: "main_step s t \<Longrightarrow> b_capture (bridge t) = None \<longleftrightarrow> b_capture (bridge s) = None"
  by (cases rule: main_step.cases)
    (auto simp: closeTransport_def closeCapture_def setState_def emit_def teardown_bye_def closeDone_def Let_def
      split: prod.splits if_splits)

lemma gone_ok_update [simp]:
  "gone_ok (s\<lparr>mainPc := m\<rparr>) = gone_ok s" "gone_ok (s\<lparr>bridge := b\<rparr>) = gone_ok s"
  "gone_ok (s\<lparr>crashed := x\<rparr>) = gone_ok s" "gone_ok (s\<lparr>ctxDone := True\<rparr>)"
  by (simp_all add: gone_ok_def)

lemma main_gone_ok: "main_step s t \<Longrightarrow> gone_ok s \<Longrightarrow> gone_ok t"
  by (cases rule: main_step.cases) auto

lemma gone_ctx: "gone_ok s \<Longrightarrow> all_gone s \<Longrightarrow> ctxDone s"
  by (simp add: gone_ok_def all_gone_def)

lemma setState_fields [simp]:
  "b_done (setState st b) = b_done b" "b_transport (setState st b) = b_transport b"
  "b_capture (setState st b) = b_capture b" "b_state (setState st b) = st"
  by (simp_all add: setState_def emit_def Let_def)

lemma closed_Close [simp]: "closed (Close t)"
  by (simp add: Close_def)

lemma main_main_ok:
  assumes "main_step s t" and "main_ok has s" and "gone_ok s"
  shows "main_ok has t"
  using assms
proof cases
  case (MainDone b)
  then show ?thesis using assms(2) by (auto simp: main_ok_def closeDone_def split: if_splits)
next
  case MainPeerReturn
  then show ?thesis using assms(2,3) gone_ctx by (auto simp: main_ok_def Let_def capture_closed_def)
next
  case MainShutReturn
  then show ?thesis using assms(2) by (auto simp: main_ok_def Let_def capture_closed_def)
qed (auto simp: main_ok_def Let_def closeTransport_def closeCapture_def capture_closed_close [unfolded closeCapture_def])

lemma run_ok_safe:
  assumes "run_ok has s" and "safe (bridge s) (bridge t)" and "gone_ok t" and "\<not> all_gone s"
    and "mainPc t = mainPc s \<and> ctxDone t = ctxDone s \<and> recvPeer t = recvPeer s"
  shows "run_ok has t"
  using assms main_ok_keeps [of has s t] by (auto simp: run_ok_def safe_def keeps_def)

lemma run_ok_step:
  assumes "run_step io s t" and "run_ok has s"
  shows "run_ok has t"
  using assms(1)
proof cases
  case Goroutine
  then show ?thesis
    using run_ok_safe [OF assms(2) goroutine_safe goroutine_gone_ok goroutine_alive goroutine_main] assms(2)
    by (auto simp: run_ok_def)
next
  case Ticker
  then show ?thesis
    using run_ok_safe [OF assms(2) tick_safe tick_gone_ok tick_alive tick_main] assms(2) by (auto simp: run_ok_def)
next
  case Caller
  then show ?thesis
    using assms(2) main_bridge_ok main_capture main_gone_ok main_main_ok by (metis run_ok_def)
next
  case Cancel
  then show ?thesis using assms(2) by (auto simp: run_ok_def main_ok_def Let_def split: main_pc.splits)
next
  case (SetCap cap b)
  then show ?thesis using assms(2)
    by (auto simp: run_ok_def main_ok_def Let_def SetCapture_def split: main_pc.splits if_splits)
qed

interpretation run: transition_invariant "\<lambda>s. \<exists>b ctx. s = Run_start ctx b \<and> bridge_ok b \<and> (has \<longrightarrow> b_capture b \<noteq> None)"
  "run_step io" "run_ok has" for has io
proof
  show "run_ok has s" if "\<exists>b ctx. s = Run_start ctx b \<and> bridge_ok b \<and> (has \<longrightarrow> b_capture b \<noteq> None)" for s :: "'a Run"
    using that by (auto simp: run_ok_def Run_start_def gone_ok_def main_ok_def)
qed (rule run_ok_step)

lemma run_reachable_ok:
  assumes "(run_step io)\<^sup>*\<^sup>* (Run_start ctx b) s" and "bridge_ok b"
  shows "run_ok (b_capture b \<noteq> None) s"
  by (rule run.inv_reachable [OF _ assms(1)]) (use assms(2) in blast)

section \<open>Returning\<close>


text \<open>The context stays cancelled.\<close>

lemma main_ctx: "main_step s t \<Longrightarrow> ctxDone t = ctxDone s"
  by (cases rule: main_step.cases) auto

lemma run_step_ctx: "run_step io s t \<Longrightarrow> ctxDone s \<Longrightarrow> ctxDone t"
  by (cases rule: run_step.cases) (auto simp: main_ctx dest: goroutine_main tick_main)

text \<open>
  C20. After the peer is gone, \<^verbatim>\<open>Run\<close> waits for goroutines that only the context can stop: once the
  caller is in that wait and the context is not cancelled, it is still in it in every later state
  in which the context is not cancelled, so \<^verbatim>\<open>ErrPeerDisconnected\<close> is never returned to a caller
  that does not cancel.
\<close>

theorem disconnect_waits:
  assumes "(run_step io)\<^sup>*\<^sup>* (Run_start False b) s" and "bridge_ok b" and "mainPc s = PeerWait"
    and "(run_step io)\<^sup>*\<^sup>* s t" and "\<not> ctxDone t"
  shows "mainPc t = PeerWait"
  using assms(4,5)
proof (induction rule: rtranclp_induct)
  case base
  show ?case by (rule assms(3))
next
  case (step t u)
  have "\<not> ctxDone t" using run_step_ctx [OF step.hyps(2)] step.prems by blast
  then have pc: "mainPc t = PeerWait" using step.IH by blast
  have "gone_ok t"
    using run_reachable_ok [OF rtranclp_trans [OF assms(1) step.hyps(1)] assms(2)] by (simp add: run_ok_def)
  then have alive: "\<not> all_gone t" using gone_ctx \<open>\<not> ctxDone t\<close> by blast
  from step.hyps(2) show ?case
  proof cases
    case Caller
    from Caller(2) show ?thesis using pc alive by cases auto
  qed (use pc in \<open>auto dest: goroutine_main tick_main\<close>)
qed

section \<open>Races\<close>

lemma Run_start_fields:
  "bridge (Run_start ctx b) = b" "ctxDone (Run_start ctx b) = ctx" "recvPeer (Run_start ctx b) = PeerAddr (b_transport b)"
  "capPc (Run_start ctx b) = CapWaiting" "sendPc (Run_start ctx b) = SendSelect" "recvPc (Run_start ctx b) = RecvCheck"
  "pingPc (Run_start ctx b) = PingSelect" "mainPc (Run_start ctx b) = Selecting" "\<not> crashed (Run_start ctx b)"
  by (simp_all add: Run_start_def)

lemma then_goroutine: "(run_step io)\<^sup>*\<^sup>* s t \<Longrightarrow> \<not> crashed t \<Longrightarrow> goroutine_step io t u \<Longrightarrow> (run_step io)\<^sup>*\<^sup>* s u"
  by (erule rtranclp.rtrancl_into_rtrancl) (rule Goroutine)

lemma then_tick: "(run_step io)\<^sup>*\<^sup>* s t \<Longrightarrow> \<not> crashed t \<Longrightarrow> tick_step t u \<Longrightarrow> (run_step io)\<^sup>*\<^sup>* s u"
  by (meson rtranclp.rtrancl_into_rtrancl Ticker)

lemma then_caller: "(run_step io)\<^sup>*\<^sup>* s t \<Longrightarrow> \<not> crashed t \<Longrightarrow> main_step t u \<Longrightarrow> (run_step io)\<^sup>*\<^sup>* s u"
  by (erule rtranclp.rtrancl_into_rtrancl) (rule Caller)

lemma then_cancel: "(run_step io)\<^sup>*\<^sup>* s t \<Longrightarrow> \<not> crashed t \<Longrightarrow> (run_step io)\<^sup>*\<^sup>* s (t\<lparr>ctxDone := True\<rparr>)"
  by (erule rtranclp.rtrancl_into_rtrancl) (rule Cancel)

text \<open>A BYE of the peer: the bridge disconnects and closes \<^verbatim>\<open>done\<close> under its once-guard.\<close>

definition peer_bye :: "'h Bridge \<Rightarrow> UDPAddr \<Rightarrow> bytes \<Rightarrow> bool" where
  "peer_bye b peer bye \<longleftrightarrow> link_up (b_transport b) \<and> peerAddr (b_transport b) = Some peer \<and>
     length bye \<le> recvBufSize \<and> snd (Decode (b_codec b) bye) = Ret (new_Message MsgBye) \<and> \<not> b_done b \<and> \<not> doneOnce b"

lemma recv_bye:
  assumes "peer_bye b peer bye" and "r_read ob = read_result.ReadPacket bye peer"
  shows "\<exists>b1. recvLoop_iter False (Some peer) ob b = Running b1 \<and> recv_ping (Some peer) ob b = None \<and>
     b_done b1 \<and> b_capture b1 = b_capture b \<and> b_state b1 = StateDisconnected"
proof -
  obtain c where d: "Decode (b_codec b) bye = (c, Ret (new_Message MsgBye))"
    using assms(1) by (metis peer_bye_def prod.collapse)
  let ?b1 = "b\<lparr>recvBuf := fill_buf bye (recvBuf b), b_codec := c\<rparr>"
  have "dispatch ob (payload_ref (b_codec b) bye) (new_Message MsgBye) ?b1 =
      Ret ((setState StateDisconnected ?b1)\<lparr>doneOnce := True, b_done := True\<rparr>)"
    using assms(1)
    by (simp add: dispatch_def new_Message_def handleBye_def closeDoneOnce_def peer_bye_def setState_def emit_def Let_def)
  moreover have "recv_ping (Some peer) ob b = None"
    using assms d by (simp add: recv_ping_def peer_bye_def Recv_up recvLoop_decode_def new_Message_def Let_def)
  ultimately show ?thesis
    using recvLoop_receives [of b ob bye peer peer, OF _ assms(2) _ _ d] assms(1) by (simp add: peer_bye_def)
qed


lemma bye_reaches_wait:
  assumes "peer_bye b peer bye" and "captureReady b"
  shows "\<exists>s b1. (run_step io)\<^sup>*\<^sup>* (Run_start False b) s \<and> mainPc s = PeerWait \<and> capPc s = CapReading \<and>
     \<not> ctxDone s \<and> \<not> crashed s \<and> bridge s = closeCapture (closeTransport b1) \<and> b_capture b1 = b_capture b"
proof -
  define s0 where "s0 = Run_start False b"
  define s1 where "s1 = s0\<lparr>recvPc := RecvReading\<rparr>"
  define s2 where "s2 = s1\<lparr>capPc := CapCheck\<rparr>"
  define s3 where "s3 = s2\<lparr>capPc := CapReading\<rparr>"
  let ?ob = "\<lparr>r_read = read_result.ReadPacket bye peer, r_done_after = False, r_now = 0, r_write = True\<rparr>"
  obtain b1 where b1: "recvLoop_iter False (Some peer) ?ob b = Running b1" "recv_ping (Some peer) ?ob b = None"
    "b_done b1" "b_capture b1 = b_capture b"
    using recv_bye [OF assms(1), of ?ob] by auto
  define s4 where "s4 = s3\<lparr>bridge := b1, recvPc := RecvCheck\<rparr>"
  define s5 where "s5 = s4\<lparr>mainPc := Deciding\<rparr>"
  define s6 where "s6 = s5\<lparr>mainPc := PeerClose\<rparr>"
  define s7 where "s7 = s6\<lparr>bridge := closeTransport b1, mainPc := PeerCapture\<rparr>"
  define s8 where "s8 = s7\<lparr>bridge := closeCapture (closeTransport b1), mainPc := PeerWait\<rparr>"
  note defs = s8_def s7_def s6_def s5_def s4_def s3_def s2_def s1_def
  have peer: "PeerAddr (b_transport b) = Some peer" using assms(1) by (simp add: peer_bye_def PeerAddr_def)
  note s0 = Run_start_fields [of False b, folded s0_def]
  have "(run_step io)\<^sup>*\<^sup>* s0 s1"
    using then_goroutine [OF rtranclp.rtrancl_refl _ RecvPoll [of s0]] by (simp add: defs s0)
  then have "(run_step io)\<^sup>*\<^sup>* s0 s2" unfolding s2_def
    by (rule then_goroutine) (use assms(2) in \<open>auto intro: CapReady simp: defs s0\<close>)
  then have "(run_step io)\<^sup>*\<^sup>* s0 s3" by (rule then_goroutine) (use CapPoll [of s2] in \<open>simp_all add: defs s0\<close>)
  then have "(run_step io)\<^sup>*\<^sup>* s0 s4"
    by (rule then_goroutine) (use RecvOther [where s = s3 and ob = ?ob and b = b1] b1 peer in \<open>simp_all add: defs s0\<close>)
  then have "(run_step io)\<^sup>*\<^sup>* s0 s5" by (rule then_caller) (use MainSelect [of s4] b1 in \<open>simp_all add: defs s0\<close>)
  then have "(run_step io)\<^sup>*\<^sup>* s0 s6" by (rule then_caller) (use MainDecide [of s5] b1 in \<open>simp_all add: defs s0\<close>)
  then have "(run_step io)\<^sup>*\<^sup>* s0 s7" by (rule then_caller) (use MainPeerClose [of s6] in \<open>simp_all add: defs s0\<close>)
  then have "(run_step io)\<^sup>*\<^sup>* s0 s8" by (rule then_caller) (use MainPeerCapture [of s7] in \<open>simp_all add: defs s0\<close>)
  then show ?thesis unfolding s0_def [symmetric] using b1(4)
    by (intro exI [of _ s8] exI [of _ b1]) (simp add: defs s0)
qed

text \<open>
  C22. The peer's BYE alone can crash the process: the caller closes the capture, which drops its
  handle, while the capture loop, which only the context stops, is about to read from it. The
  hypothesis on the capture library is that reading through a nil handle panics.
\<close>

theorem disconnect_capture_crash:
  assumes "peer_bye b peer bye" and "b_capture b = Some cap" and "captureReady b"
    and "rd \<in> reads io" and "rd None = Panic"
  shows "\<exists>s. (run_step io)\<^sup>*\<^sup>* (Run_start False b) s \<and> crashed s \<and> \<not> ctxDone s"
proof -
  obtain s b1 where s: "(run_step io)\<^sup>*\<^sup>* (Run_start False b) s" "capPc s = CapReading" "\<not> ctxDone s" "\<not> crashed s"
    "bridge s = closeCapture (closeTransport b1)" "b_capture b1 = b_capture b"
    using bye_reaches_wait [OF assms(1,3)] by blast
  have "captureLoop_iter False rd (bridge s) = Crashed"
    using s(5,6) assms(2,5) by (simp add: captureLoop_iter_def closeCapture_def closeTransport_def Capture.ReadPacket_def)
  then have "(run_step io)\<^sup>*\<^sup>* (Run_start False b) (s\<lparr>crashed := True\<rparr>)"
    using then_goroutine [OF s(1,4) CapCrash [OF s(2) assms(4)]] by blast
  then show ?thesis using s(3) by (intro exI [of _ "s\<lparr>crashed := True\<rparr>"]) simp
qed

lemma overtaken_dropped:
  assumes "secureMode c" and "link_ok 2 c d"
  shows "snd (decode_all d [sealed (psk c) MsgPing (sendNonce c + 1 + 1) p, sealed (psk c) MsgFrame (sendNonce c + 1) f]) =
       [Ret (MsgPing, p), Err ErrReplayDetected] \<and>
     snd (decode d (sealed (psk c) MsgFrame (sendNonce c + 1) f)) = Ret (MsgFrame, f)"
proof -
  have d: "secureMode d" "psk d = psk c" "recvNonce d \<le> sendNonce c" "unat (sendNonce c) + 2 < 2 ^ 64"
    using assms by (auto simp: link_ok_def paired_def)
  note n1 = nonce_step [of "sendNonce c" "recvNonce d"]
  have "sendNonce c + 1 < sendNonce c + 1 + 1"
    using nonce_step(1) [of "sendNonce c + 1" "sendNonce c + 1"] n1(2) d(3,4) by simp
  moreover have "recvNonce d < sendNonce c + 1" using n1(1) d(3,4) by simp
  moreover from calculation have "recvNonce d < sendNonce c + 1 + 1" "0 < sendNonce c + 1"
    by (auto simp: word_less_nat_alt)
  ultimately show ?thesis using d(1,2)
    by (simp add: decode_sealed is_handshake_def not_le [symmetric] del: MsgFrame_def MsgPing_def) simp
qed

text \<open>A run in which the ping that takes the second nonce is written first.\<close>

lemma ping_overtakes:
  assumes "link_up (b_transport b)" and "secureMode (b_codec b)"
    and "chan_buf (framesToSend b) = f # fs" and "legal_frame f" and "pendingPing b = 0"
  shows "\<exists>s. (run_step io)\<^sup>*\<^sup>* (Run_start False b) s \<and>
     map fst (sent (bridge s)) = map fst (sent b) @
       [sealed (psk (b_codec b)) MsgPing (sendNonce (b_codec b) + 1 + 1) (PutUint64 7),
        sealed (psk (b_codec b)) MsgFrame (sendNonce (b_codec b) + 1) f]"
proof -
  let ?c1 = "(b_codec b)\<lparr>sendNonce := sendNonce (b_codec b) + 1\<rparr>"
  let ?c2 = "?c1\<lparr>sendNonce := sendNonce (b_codec b) + 1 + 1\<rparr>"
  let ?frame = "sealed (psk (b_codec b)) MsgFrame (sendNonce (b_codec b) + 1) f"
  let ?ping = "sealed (psk (b_codec b)) MsgPing (sendNonce (b_codec b) + 1 + 1) (PutUint64 7)"
  define b1 where "b1 = b\<lparr>framesToSend := (framesToSend b)\<lparr>chan_buf := fs\<rparr>, b_codec := ?c1\<rparr>"
  define b2 where "b2 = b1\<lparr>pendingPing := 7, b_codec := ?c2\<rparr>"
  define s0 where "s0 = Run_start False b"
  define s1 where "s1 = s0\<lparr>bridge := b1, sendPc := SendReady ?frame (length f)\<rparr>"
  define s2 where "s2 = s1\<lparr>bridge := b2, pingPc := PingReady ?ping\<rparr>"
  obtain t3 where t3: "sendMsg True ?ping b2 = (b2\<lparr>b_transport := t3\<rparr>, True)" "link_up t3"
    "sent (b2\<lparr>b_transport := t3\<rparr>) = sent b2 @ [(?ping, the (peerAddr (b_transport b2)))]"
    using sendMsg_up [of b2 ?ping] assms(1) by (auto simp: b2_def b1_def)
  define b3 where "b3 = b2\<lparr>b_transport := t3\<rparr>"
  define s3 where "s3 = s2\<lparr>bridge := b3, pingPc := PingSelect\<rparr>"
  obtain t4 where t4: "sendMsg True ?frame b3 = (b3\<lparr>b_transport := t4\<rparr>, True)"
    "sent (b3\<lparr>b_transport := t4\<rparr>) = sent b3 @ [(?frame, the (peerAddr (b_transport b3)))]"
    using sendMsg_up [of b3 ?frame] t3(2) by (auto simp: b3_def)
  define b4 where "b4 = sendLoop_send True ?frame (length f) b3"
  define s4 where "s4 = s3\<lparr>bridge := b4, sendPc := SendSelect\<rparr>"
  note defs = s4_def s3_def s2_def s1_def
  note s0 = Run_start_fields [of False b, folded s0_def]
  have "sendLoop_encode f (b\<lparr>framesToSend := (framesToSend b)\<lparr>chan_buf := fs\<rparr>\<rparr>) = (b1, Some ?frame)"
    using assms(2,4) by (simp add: sendLoop_encode_def EncodeFrame_def legal_frame_def encode_secure b1_def)
  then have "(run_step io)\<^sup>*\<^sup>* s0 s1"
    using then_goroutine [OF rtranclp.rtrancl_refl _ SendEncode [where s = s0 and frame = f and b = b1 and m = "Some ?frame"]] assms(3)
    by (simp add: defs s0 chan_recv_def)
  moreover have "sendPing_lock 7 b1 = Ret (b1\<lparr>pendingPing := 7\<rparr>, Some 7)" "encodePing 7 (b1\<lparr>pendingPing := 7\<rparr>) = (b2, ?ping)"
    using assms(2,5) by (simp_all add: sendPing_lock_def encodePing_def EncodePing_def encode_secure b1_def b2_def)
  ultimately have "(run_step io)\<^sup>*\<^sup>* s0 s2"
    by (elim then_tick) (use PingTick [where s = s1 and now = 7 and b = b2 and m = ?ping] in \<open>simp_all add: defs s0\<close>)
  then have "(run_step io)\<^sup>*\<^sup>* s0 s3"
    by (rule then_goroutine) (use PingWrite [where s = s2 and ok = True and m = ?ping] t3(1) in \<open>simp_all add: defs s0 b3_def\<close>)
  then have "(run_step io)\<^sup>*\<^sup>* s0 s4"
    by (rule then_goroutine) (use SendWrite [where s = s3 and ok = True and m = ?frame and len = "length f"] in \<open>simp_all add: defs s0 b4_def\<close>)
  moreover have "sent b2 = sent b" by (simp add: sent_def b2_def b1_def)
  then have "map fst (sent b4) = map fst (sent b) @ [?ping, ?frame]"
    using t4 t3(3) by (simp add: b4_def sendLoop_send_def Let_def b3_def sent_def)
  ultimately show ?thesis unfolding s0_def [symmetric] by (intro exI [of _ s4]) (simp add: s4_def)
qed

text \<open>
  C23. Taking a nonce and sending are not one step, so messages can overtake each other between them:
  with a frame in the send queue and a tick of the ping timer, a keyed bridge can put the PING on
  the wire before the FRAME that took the smaller nonce; a receiver that would accept both in
  nonce order accepts the PING and drops the FRAME as a replay.
\<close>

theorem nonce_overtaken:
  assumes "link_up (b_transport b)" and "secureMode (b_codec b)" and "link_ok 2 (b_codec b) d"
    and "chan_buf (framesToSend b) = f # fs" and "legal_frame f" and "pendingPing b = 0"
  shows "\<exists>s ping frame p. (run_step io)\<^sup>*\<^sup>* (Run_start False b) s \<and>
     map fst (sent (bridge s)) = map fst (sent b) @ [ping, frame] \<and>
     snd (decode_all d [ping, frame]) = [Ret (MsgPing, p), Err ErrReplayDetected] \<and>
     snd (decode d frame) = Ret (MsgFrame, f)"
  using ping_overtakes [OF assms(1,2,4-6), of io] overtaken_dropped [OF assms(2,3)] by blast

section \<open>Instances\<close>

definition sample_io :: "unit pcap_io" where
  "sample_io = \<lparr>reads = {\<lambda>h. case h of None \<Rightarrow> Panic | Some u \<Rightarrow> Err NextErrorTimeoutExpired}, writes = {\<lambda>h f. Ret ()}\<rparr>"

lemma peer_bye_sample: "peer_bye (sample_bridge []) sample_addr [MsgBye]"
proof -
  have "Decode (NewCodec []) [MsgBye] = (NewCodec [], Ret (new_Message MsgBye))"
    using parsePayload_ping(3) [of "[]"] by (simp add: Decode_def NewCodec_def decode_insecure)
  then show ?thesis
    by (simp add: peer_bye_def link_up_sample recvBufSize_def) (simp add: sample_transport_def)
qed

lemma captureReady_sample: "captureReady (sample_bridge k)"
  by (simp add: sample_bridge_def Bridge_New_def sample_config_def)

lemma sample_run_returns:
  "\<exists>s. (run_step sample_io)\<^sup>*\<^sup>* (Run_start True (sample_bridge [])) s \<and> mainPc s = Returned None"
proof -
  define b where "b = sample_bridge []"
  define s0 where "s0 = Run_start True b"
  define s1 where "s1 = s0\<lparr>capPc := CapGone\<rparr>"
  define s2 where "s2 = s1\<lparr>sendPc := SendGone\<rparr>"
  define s3 where "s3 = s2\<lparr>recvPc := RecvGone\<rparr>"
  define s4 where "s4 = s3\<lparr>injPc := InjGone\<rparr>"
  define s5 where "s5 = s4\<lparr>pingPc := PingGone\<rparr>"
  define s6 where "s6 = s5\<lparr>stdinPc := SvcGone\<rparr>"
  define s7 where "s7 = s6\<lparr>mainPc := Deciding\<rparr>"
  define s8 where "s8 = s7\<lparr>mainPc := ByeSend\<rparr>"
  define b1 where "b1 = teardown_bye True b"
  define s9 where "s9 = s8\<lparr>bridge := b1, mainPc := DoneClose\<rparr>"
  define b2 where "b2 = b1\<lparr>b_done := True\<rparr>"
  define s10 where "s10 = s9\<lparr>bridge := b2, mainPc := ShutClose\<rparr>"
  define s11 where "s11 = s10\<lparr>bridge := closeTransport b2, mainPc := ShutCapture\<rparr>"
  define s12 where "s12 = s11\<lparr>bridge := closeCapture (closeTransport b2), mainPc := ShutWait\<rparr>"
  define s13 where "s13 = s12\<lparr>bridge := setState StateDisconnected (closeCapture (closeTransport b2)), mainPc := Returned None\<rparr>"
  note defs = s13_def s12_def s11_def s10_def s9_def s8_def s7_def s6_def s5_def s4_def s3_def s2_def s1_def
  note s0 = Run_start_fields [of True b, folded s0_def]
  have idle: "b_statsInterval b = 0" by (simp add: b_def sample_bridge_def Bridge_New_def sample_config_def)
  have more: "injPc s0 = InjWaiting" "stdinPc s0 = SvcSelect" "statsPc s0 = SvcGone"
    by (simp_all add: s0_def Run_start_def idle)
  have nd: "\<not> b_done b" "\<not> b_done b1"
    by (simp_all add: b_def b1_def teardown_bye_def case_prod_beta)
  have "(run_step sample_io)\<^sup>*\<^sup>* s0 s1" unfolding s1_def
    by (rule then_goroutine [OF rtranclp.rtrancl_refl]) (auto intro: CapExit simp: s0)
  then have "(run_step sample_io)\<^sup>*\<^sup>* s0 s2" unfolding s2_def by (rule then_goroutine) (auto intro: SendExit simp: defs s0)
  then have "(run_step sample_io)\<^sup>*\<^sup>* s0 s3" unfolding s3_def by (rule then_goroutine) (auto intro: RecvExit simp: defs s0)
  then have "(run_step sample_io)\<^sup>*\<^sup>* s0 s4" unfolding s4_def by (rule then_goroutine) (auto intro: InjExit simp: defs s0 more)
  then have "(run_step sample_io)\<^sup>*\<^sup>* s0 s5" unfolding s5_def by (rule then_goroutine) (auto intro: PingExit simp: defs s0)
  then have "(run_step sample_io)\<^sup>*\<^sup>* s0 s6" unfolding s6_def by (rule then_goroutine) (auto intro: StdinExit simp: defs s0 more)
  then have "(run_step sample_io)\<^sup>*\<^sup>* s0 s7" unfolding s7_def by (rule then_caller) (auto intro: MainSelect simp: defs s0)
  then have "(run_step sample_io)\<^sup>*\<^sup>* s0 s8" by (rule then_caller) (use MainDecide [of s7] nd in \<open>simp_all add: defs s0\<close>)
  then have "(run_step sample_io)\<^sup>*\<^sup>* s0 s9"
    by (rule then_caller) (use MainBye [of s8 True] in \<open>simp_all add: defs s0 b1_def\<close>)
  then have "(run_step sample_io)\<^sup>*\<^sup>* s0 s10"
    by (rule then_caller) (use MainDone [of s9 b2] nd in \<open>simp_all add: defs s0 b2_def closeDone_def\<close>)
  then have "(run_step sample_io)\<^sup>*\<^sup>* s0 s11" by (rule then_caller) (use MainShutClose [of s10] in \<open>simp_all add: defs s0\<close>)
  then have "(run_step sample_io)\<^sup>*\<^sup>* s0 s12" by (rule then_caller) (use MainShutCapture [of s11] in \<open>simp_all add: defs s0\<close>)
  then have "(run_step sample_io)\<^sup>*\<^sup>* s0 s13"
    by (rule then_caller) (use MainShutReturn [of s12] in \<open>simp_all add: defs s0 more all_gone_def\<close>)
  then show ?thesis unfolding s0_def b_def by (intro exI [of _ s13]) (simp add: s13_def)
qed


theorem disconnect_waits_witness:
  "\<exists>s. (run_step sample_io)\<^sup>*\<^sup>* (Run_start False (sample_bridge [])) s \<and> \<not> ctxDone s \<and> b_done (bridge s) \<and>
     (\<forall>r. mainPc s \<noteq> Returned r)"
proof -
  obtain s where s: "(run_step sample_io)\<^sup>*\<^sup>* (Run_start False (sample_bridge [])) s" "mainPc s = PeerWait" "\<not> ctxDone s"
    using bye_reaches_wait [OF peer_bye_sample captureReady_sample] by blast
  have "mainPc s = PeerWait" by (rule disconnect_waits [OF s(1) bridge_ok_sample s(2) rtranclp.rtrancl_refl s(3)])
  moreover have "b_done (bridge s)"
    using run_reachable_ok [OF s(1) bridge_ok_sample] s(2) by (simp add: run_ok_def main_ok_def Let_def)
  ultimately show ?thesis using s by (intro exI [of _ s]) simp
qed


theorem disconnect_capture_crash_witness:
  "\<exists>s. (run_step sample_io)\<^sup>*\<^sup>* (Run_start False (sample_bridge [])) s \<and> crashed s \<and> \<not> ctxDone s"
  by (rule disconnect_capture_crash [OF peer_bye_sample _ captureReady_sample,
        of _ "\<lambda>h. case h of None \<Rightarrow> Panic | Some u \<Rightarrow> Err NextErrorTimeoutExpired"])
    (simp_all add: sample_io_def)

theorem nonce_overtaken_witness:
  "\<exists>s ping frame p. (run_step sample_io)\<^sup>*\<^sup>*
      (Run_start False ((sample_bridge [7])\<lparr>framesToSend := \<lparr>chan_buf = [replicate 14 1], chan_cap = 256\<rparr>\<rparr>)) s \<and>
     map fst (sent (bridge s)) = [ping, frame] \<and>
     snd (decode_all (NewCodec [7]) [ping, frame]) = [Ret (MsgPing, p), Err ErrReplayDetected]"
proof -
  let ?b = "(sample_bridge [7])\<lparr>framesToSend := \<lparr>chan_buf = [replicate 14 1], chan_cap = 256\<rparr>\<rparr>"
  have "link_up (b_transport ?b)" "secureMode (b_codec ?b)" "link_ok 2 (b_codec ?b) (NewCodec [7])"
    "chan_buf (framesToSend ?b) = [replicate 14 1]" "legal_frame (replicate 14 1)" "pendingPing ?b = 0"
    by (simp_all add: link_up_sample link_ok_def paired_def NewCodec_def legal_frame_def)
  moreover have "sent ?b = []" by (simp add: sent_def sample_transport_def new_UDPConn_def)
  ultimately show ?thesis using nonce_overtaken [of ?b "NewCodec [7]" "replicate 14 1" "[]" sample_io] by fastforce
qed

end
