(* ===== verification/Bridge_Shutdown.thy ===== *)
theory Bridge_Shutdown
  imports Bridge_Run
begin

text \<open>
  How \<^verbatim>\<open>Run\<close> ends after a cancellation: that it can, in a few steps, and that it does, under every
  schedule, after a bounded number of steps of its own.
\<close>

section \<open>Shutting down\<close>

text \<open>How many steps each goroutine and the caller still need at most once the context is cancelled.\<close>

fun cap_todo :: "cap_pc \<Rightarrow> nat" where
  "cap_todo CapReading = 2" | "cap_todo CapGone = 0" | "cap_todo CapWaiting = 1" | "cap_todo CapCheck = 1"

fun send_todo :: "send_pc \<Rightarrow> nat" where
  "send_todo (SendReady m n) = 2" | "send_todo SendSelect = 1" | "send_todo SendGone = 0"

fun recv_todo :: "recv_pc \<Rightarrow> nat" where
  "recv_todo RecvReading = 2" | "recv_todo (PongReady m) = 2" | "recv_todo RecvCheck = 1" | "recv_todo RecvGone = 0"

fun inj_todo :: "inj_pc \<Rightarrow> nat" where
  "inj_todo InjGone = 0" | "inj_todo InjWaiting = 1" | "inj_todo InjSelect = 1"

fun ping_todo :: "ping_pc \<Rightarrow> nat" where
  "ping_todo (PingReady m) = 2" | "ping_todo PingSelect = 1" | "ping_todo PingGone = 0"

fun svc_todo :: "svc_pc \<Rightarrow> nat" where
  "svc_todo SvcSelect = 1" | "svc_todo SvcGone = 0"

fun main_todo :: "main_pc \<Rightarrow> nat" where
  "main_todo Selecting = 7" | "main_todo Deciding = 6" | "main_todo ByeSend = 5" | "main_todo DoneClose = 4"
| "main_todo ShutClose = 3" | "main_todo PeerClose = 3" | "main_todo ShutCapture = 2" | "main_todo PeerCapture = 2"
| "main_todo ShutWait = 1" | "main_todo PeerWait = 1" | "main_todo (Returned r) = 0"

definition run_measure :: "'h Run \<Rightarrow> nat" where
  "run_measure s = cap_todo (capPc s) + send_todo (sendPc s) + recv_todo (recvPc s) + inj_todo (injPc s) +
     ping_todo (pingPc s) + svc_todo (statsPc s) + svc_todo (stdinPc s) + main_todo (mainPc s)"

lemma run_measure_bound: "run_measure s \<le> 18"
proof -
  have "cap_todo (capPc s) \<le> 2" by (cases "capPc s") simp_all
  moreover have "send_todo (sendPc s) \<le> 2" by (cases "sendPc s") simp_all
  moreover have "recv_todo (recvPc s) \<le> 2" by (cases "recvPc s") simp_all
  moreover have "inj_todo (injPc s) \<le> 1" by (cases "injPc s") simp_all
  moreover have "ping_todo (pingPc s) \<le> 2" by (cases "pingPc s") simp_all
  moreover have svc: "svc_todo p \<le> 1" for p by (cases p) simp_all
  note svc [of "statsPc s"] svc [of "stdinPc s"]
  moreover have "main_todo (mainPc s) \<le> 7" by (cases "mainPc s") simp_all
  ultimately show ?thesis unfolding run_measure_def by linarith
qed

definition timeout_obs :: "bool \<Rightarrow> recv_obs" where
  "timeout_obs d = \<lparr>r_read = ReadTimeoutErr, r_done_after = d, r_now = 0, r_write = False\<rparr>"

lemma recvLoop_timeout:
  "recv_ping peer (timeout_obs True) b = None"
  "recvLoop_iter False peer (timeout_obs True) b = Running b \<or> recvLoop_iter False peer (timeout_obs True) b = Exited b"
  by (auto simp: timeout_obs_def recv_ping_def recvLoop_iter_def Recv_def ReadFromUDP_def
      split: recv_result.splits option.splits)

lemma capture_progress:
  assumes "ctxDone s" and "capPc s \<noteq> CapGone" and "rd \<in> reads io"
  shows "\<exists>t. goroutine_step io s t \<and> (crashed t \<or> run_measure t < run_measure s)"
proof (cases "capPc s = CapReading")
  case False
  then have "goroutine_step io s (s\<lparr>capPc := CapGone\<rparr>)" using assms by (cases "capPc s") (auto intro: CapExit)
  moreover have "run_measure (s\<lparr>capPc := CapGone\<rparr>) < run_measure s"
    using False assms(2) by (cases "capPc s") (simp_all add: run_measure_def)
  ultimately show ?thesis by blast
next
  case True
  show ?thesis
  proof (cases "captureLoop_iter False rd (bridge s)")
    case (Running b)
    then show ?thesis using CapRead [OF True assms(3) Running] True by (fastforce simp: run_measure_def)
  next
    case (Exited b)
    then show ?thesis using CapEnd [OF True assms(3) Exited] True by (fastforce simp: run_measure_def)
  next
    case Crashed
    then show ?thesis using CapCrash [OF True assms(3) Crashed] by fastforce
  qed
qed

lemma recv_progress:
  assumes "ctxDone s" and "recvPc s \<noteq> RecvGone"
  shows "\<exists>t. goroutine_step io s t \<and> (crashed t \<or> run_measure t < run_measure s)"
proof (cases "recvPc s")
  case RecvCheck
  then show ?thesis using RecvExit [OF RecvCheck assms(1)] by (fastforce simp: run_measure_def)
next
  case RecvReading
  have "r_done_after (timeout_obs True) = ctxDone s" using assms(1) by (simp add: timeout_obs_def)
  then show ?thesis
    using recvLoop_timeout(2) [of "recvPeer s" "bridge s"] RecvReading
      RecvOther [OF RecvReading _ recvLoop_timeout(1)] RecvEnd [OF RecvReading]
    by (fastforce simp: run_measure_def)
next
  case (PongReady pong)
  then show ?thesis using PongWrite [OF PongReady] by (fastforce simp: run_measure_def)
qed (use assms(2) in simp)

lemma worker_progress:
  assumes "ctxDone s" and "sendPc s \<noteq> SendGone \<or> injPc s \<noteq> InjGone \<or> pingPc s \<noteq> PingGone \<or>
     statsPc s \<noteq> SvcGone \<or> stdinPc s \<noteq> SvcGone"
  shows "\<exists>t. goroutine_step io s t \<and> run_measure t < run_measure s"
proof -
  consider "sendPc s = SendSelect" | m n where "sendPc s = SendReady m n" | "injPc s = InjWaiting \<or> injPc s = InjSelect"
    | "pingPc s = PingSelect" | m where "pingPc s = PingReady m" | "statsPc s = SvcSelect" | "stdinPc s = SvcSelect"
    using assms(2) by (metis inj_pc.exhaust ping_pc.exhaust send_pc.exhaust svc_pc.exhaust)
  then show ?thesis
  proof cases
    case 1
    then show ?thesis using SendExit [OF 1 assms(1)] by (fastforce simp: run_measure_def)
  next
    case (2 m n)
    then show ?thesis using SendWrite [OF 2] by (fastforce simp: run_measure_def)
  next
    case 3
    then show ?thesis using InjExit [OF 3 assms(1)] by (fastforce simp: run_measure_def)
  next
    case 4
    then show ?thesis using PingExit [OF 4 assms(1)] by (fastforce simp: run_measure_def)
  next
    case (5 m)
    then show ?thesis using PingWrite [OF 5] by (fastforce simp: run_measure_def)
  next
    case 6
    then show ?thesis using StatsExit [OF 6 assms(1)] by (fastforce simp: run_measure_def)
  next
    case 7
    then show ?thesis using StdinExit [OF 7 assms(1)] by (fastforce simp: run_measure_def)
  qed
qed

lemma main_progress:
  assumes "ctxDone s" and "all_gone s" and "\<forall>r. mainPc s \<noteq> Returned r"
  shows "\<exists>t. main_step s t \<and> (crashed t \<or> run_measure t < run_measure s)"
proof (cases "mainPc s")
  case Selecting
  then show ?thesis using MainSelect [OF Selecting] assms(1) by (fastforce simp: run_measure_def)
next
  case Deciding
  then show ?thesis using MainDecide [OF Deciding]
    by (intro exI [of _ "s\<lparr>mainPc := if b_done (bridge s) then PeerClose else ByeSend\<rparr>"]) (simp add: run_measure_def)
next
  case PeerClose
  then show ?thesis using MainPeerClose [OF PeerClose] by (fastforce simp: run_measure_def)
next
  case PeerCapture
  then show ?thesis using MainPeerCapture [OF PeerCapture] by (fastforce simp: run_measure_def)
next
  case PeerWait
  then show ?thesis using MainPeerReturn [OF PeerWait assms(2)] by (fastforce simp: run_measure_def)
next
  case ByeSend
  then show ?thesis using MainBye [OF ByeSend] by (fastforce simp: run_measure_def)
next
  case DoneClose
  then show ?thesis
    using MainDone [OF DoneClose] MainDonePanic [OF DoneClose] by (cases "b_done (bridge s)") (fastforce simp: closeDone_def run_measure_def)+
next
  case ShutClose
  then show ?thesis using MainShutClose [OF ShutClose] by (fastforce simp: run_measure_def)
next
  case ShutCapture
  then show ?thesis using MainShutCapture [OF ShutCapture] by (fastforce simp: run_measure_def)
next
  case ShutWait
  then show ?thesis using MainShutReturn [OF ShutWait assms(2)] by (fastforce simp: run_measure_def)
qed (use assms(3) in simp)

lemma program_progress:
  assumes "ctxDone s" and "\<forall>r. mainPc s \<noteq> Returned r" and "rd \<in> reads io"
  shows "\<exists>t. (goroutine_step io s t \<or> main_step s t) \<and> (crashed t \<or> run_measure t < run_measure s)"
proof -
  consider "capPc s \<noteq> CapGone" | "recvPc s \<noteq> RecvGone"
    | "sendPc s \<noteq> SendGone \<or> injPc s \<noteq> InjGone \<or> pingPc s \<noteq> PingGone \<or> statsPc s \<noteq> SvcGone \<or> stdinPc s \<noteq> SvcGone"
    | "all_gone s" by (auto simp: all_gone_def)
  then show ?thesis
    by cases (use assms capture_progress recv_progress worker_progress main_progress in metis)+
qed

lemma run_progress:
  assumes "ctxDone s" and "\<not> crashed s" and "\<forall>r. mainPc s \<noteq> Returned r" and "rd \<in> reads io"
  shows "\<exists>t. run_step io s t \<and> ctxDone t \<and> (crashed t \<or> run_measure t < run_measure s)"
  using program_progress [OF assms(1,3,4)] assms(1,2) run_step_ctx Goroutine Caller by metis

text \<open>
  A shutdown can always finish: from every state in which the context is cancelled and the
  process has not crashed, at most eighteen further steps lead to the return of \<^verbatim>\<open>Run\<close> or to a crash
  (crashes are possible in the model of the code as it is), provided that the capture library's read
  returns.
\<close>

lemma shutdown_completes:
  assumes "ctxDone s" and "\<not> crashed s" and "reads io \<noteq> {}"
  shows "\<exists>n t. n \<le> 18 \<and> (run_step io ^^ n) s t \<and> (crashed t \<or> (\<exists>r. mainPc t = Returned r))"
proof -
  have "\<exists>n t. n \<le> run_measure s \<and> (run_step io ^^ n) s t \<and> (crashed t \<or> (\<exists>r. mainPc t = Returned r))"
    using assms(1,2)
  proof (induction "run_measure s" arbitrary: s rule: less_induct)
    case less
    show ?case
    proof (cases "\<exists>r. mainPc s = Returned r")
      case True
      then show ?thesis by (intro exI [of _ 0] exI [of _ s]) simp
    next
      case False
      then obtain t where t: "run_step io s t" "ctxDone t" "crashed t \<or> run_measure t < run_measure s"
        using run_progress [of s] less.prems assms(3) by blast
      show ?thesis
      proof (cases "crashed t")
        case True
        have "1 \<le> run_measure s" using False by (cases "mainPc s") (simp_all add: run_measure_def)
        then show ?thesis using True t(1) by (intro exI [of _ 1] exI [of _ t]) (simp add: eq_OO)
      next
        case c: False
        then obtain n u where "n \<le> run_measure t" "(run_step io ^^ n) t u" "crashed u \<or> (\<exists>r. mainPc u = Returned r)"
          using less.hyps t by blast
        then show ?thesis using t(1,3) c
          by (intro exI [of _ "Suc n"] exI [of _ u]) (auto intro: relpowp_Suc_I2 simp del: relpowp.simps)
      qed
    qed
  qed
  then show ?thesis using run_measure_bound [of s] by (meson le_trans)
qed

section \<open>Every schedule ends\<close>

text \<open>
  After a cancellation the capture loop and the receive loop read at most once more; then the queues
  only shrink. The steps still to come are counted with what they can put into the queues.
\<close>

fun cap_work :: "cap_pc \<Rightarrow> nat" where
  "cap_work CapReading = 4" | "cap_work CapWaiting = 2" | "cap_work CapCheck = 1" | "cap_work CapGone = 0"

fun recv_work :: "recv_pc \<Rightarrow> nat" where
  "recv_work RecvReading = 3" | "recv_work (PongReady m) = 2" | "recv_work RecvCheck = 1" | "recv_work RecvGone = 0"

fun inj_work :: "inj_pc \<Rightarrow> nat" where
  "inj_work InjWaiting = 2" | "inj_work InjSelect = 1" | "inj_work InjGone = 0"

definition queued :: "'h Bridge \<Rightarrow> nat" where
  "queued b = 2 * length (chan_buf (framesToSend b)) + length (chan_buf (framesToInject b))"

definition work :: "'h Run \<Rightarrow> nat" where
  "work s =
     (if crashed s then 0
      else Suc (queued (bridge s) + cap_work (capPc s) + send_todo (sendPc s) + recv_work (recvPc s) +
        inj_work (injPc s) + ping_todo (pingPc s) + svc_todo (statsPc s) + svc_todo (stdinPc s) + main_todo (mainPc s)))"

lemma work_bound:
  assumes "bridge_ok (bridge s)"
  shows "work s \<le> 791"
proof -
  have "queued (bridge s) \<le> 768"
    using assms by (simp add: bridge_ok_def chan_ok_def queued_def ChannelBufferSize_def)
  moreover have "cap_work (capPc s) \<le> 4" by (cases "capPc s") simp_all
  moreover have "send_todo (sendPc s) \<le> 2" by (cases "sendPc s") simp_all
  moreover have "recv_work (recvPc s) \<le> 3" by (cases "recvPc s") simp_all
  moreover have "inj_work (injPc s) \<le> 2" by (cases "injPc s") simp_all
  moreover have "ping_todo (pingPc s) \<le> 2" by (cases "pingPc s") simp_all
  moreover have svc: "svc_todo p \<le> 1" for p by (cases p) simp_all
  note svc [of "statsPc s"] svc [of "stdinPc s"]
  moreover have "main_todo (mainPc s) \<le> 7" by (cases "mainPc s") simp_all
  ultimately show ?thesis unfolding work_def by simp
qed

text \<open>What the loop bodies do to the queues.\<close>

lemma queued_update [simp]:
  "queued (emit t d b) = queued b" "queued (setState st b) = queued b" "queued (b\<lparr>b_codec := c\<rparr>) = queued b"
  "queued (b\<lparr>b_transport := tr\<rparr>) = queued b" "queued (b\<lparr>recvBuf := buf\<rparr>) = queued b"
  "queued (b\<lparr>b_injected := fs\<rparr>) = queued b" "queued (b\<lparr>b_stats := st'\<rparr>) = queued b"
  "queued (b\<lparr>pendingPing := ts\<rparr>) = queued b" "queued (b\<lparr>missedPongs := n\<rparr>) = queued b"
  "queued (b\<lparr>b_done := d'\<rparr>) = queued b" "queued (b\<lparr>doneOnce := d''\<rparr>) = queued b"
  "queued (b\<lparr>b_capture := cap\<rparr>) = queued b" "queued (b\<lparr>captureReady := r\<rparr>) = queued b"
  by (simp_all add: queued_def emit_def setState_def Let_def)

lemma length_try_send: "length (chan_buf (fst (chan_try_send x ch))) \<le> Suc (length (chan_buf ch))"
  by (simp add: chan_try_send_def)

lemma queued_calls [simp]:
  "queued (fst (sendMsg ok m b)) = queued b" "queued (sendLoop_send ok m n b) = queued b"
  "queued (fst (sendLoop_encode f b)) = queued b" "queued (fst (printStats b)) = queued b"
  "queued (teardown_bye ok b) = queued b" "queued (closeTransport b) = queued b" "queued (closeCapture b) = queued b"
  "queued (handlePing ok ts b) = queued b" "queued (handlePong now ts b) = queued b"
  by (simp_all add: sendMsg_def sendLoop_send_def sendLoop_encode_def printStats_def teardown_bye_def closeTransport_def
      closeCapture_def handlePing_def encodePong_def handlePong_def Let_def case_prod_beta split: bool.splits outcome.splits prod.splits)

lemma queued_once: "closeDoneOnce b = Ret b' \<Longrightarrow> queued b' = queued b" "closeDone b = Ret b' \<Longrightarrow> queued b' = queued b"
  by (auto simp: closeDoneOnce_def closeDone_def split: if_splits)

lemma queued_encode:
  "encodePing ts b = (b', m) \<Longrightarrow> queued b' = queued b" "encodePong ts b = (b', m) \<Longrightarrow> queued b' = queued b"
  "recvLoop_decode data b = (b', r) \<Longrightarrow> queued b' = queued b"
  by (auto simp: encodePing_def encodePong_def recvLoop_decode_def split: prod.splits)

lemma queued_lock: "sendPing_lock now b = Ret (b1, ts) \<Longrightarrow> queued b1 = queued b"
  by (auto simp: sendPing_lock_def Let_def split: if_splits outcome.splits dest: queued_once)

lemma queued_capture: "captureLoop_iter d rd b = Running b' \<Longrightarrow> queued b' \<le> queued b + 2"
  by (auto simp: captureLoop_iter_def queued_def chan_try_send_def split: if_splits option.splits outcome.splits)

lemma queued_handleFrame: "queued (handleFrame ref b) \<le> queued b + 1"
  using length_try_send [of ref "framesToInject b"] by (simp add: handleFrame_def queued_def Let_def)

lemma queued_dispatch: "dispatch ob ref msg b = Ret b' \<Longrightarrow> queued b' \<le> queued b + 1"
  using queued_handleFrame [of ref b] queued_once(1) [of "setState StateDisconnected b" b']
  by (auto simp: dispatch_def handleBye_def split: if_splits)

lemma queued_recv: "recvLoop_iter d peer ob b = Running b' \<Longrightarrow> queued b' \<le> queued b + 1"
  by (auto simp: recvLoop_iter_def Let_def
      split: if_splits recv_result.splits prod.splits outcome.splits dest!: queued_dispatch queued_encode(3))

lemma queued_ping: "recv_ping peer ob b = Some (b', ts) \<Longrightarrow> queued b' = queued b"
  by (auto simp: recv_ping_def Let_def split: recv_result.splits if_splits prod.splits outcome.splits dest: queued_encode(3))

lemma queued_inject: "injectLoop_iter False wr b = Running b' \<Longrightarrow> b' = b \<or> queued b' < queued b"
  by (auto simp: injectLoop_iter_def chan_recv_def queued_def Let_def split: list.splits option.splits outcome.splits)

lemma queued_exit: "captureLoop_iter d rd b = Exited b' \<Longrightarrow> b' = b" "recvLoop_iter d peer ob b = Exited b' \<Longrightarrow> b' = b"
  by (auto simp: captureLoop_iter_def recvLoop_iter_def Let_def
      split: if_splits option.splits outcome.splits recv_result.splits prod.splits)

lemma queued_send:
  assumes "chan_recv (framesToSend b) = Some (frame, ch)" and "sendLoop_encode frame (b\<lparr>framesToSend := ch\<rparr>) = (b', m)"
  shows "queued b = queued b' + 2"
proof -
  have "queued b' = queued (b\<lparr>framesToSend := ch\<rparr>)" using queued_calls(3) [of frame "b\<lparr>framesToSend := ch\<rparr>"] assms(2) by simp
  then show ?thesis using assms(1) by (auto simp: chan_recv_def queued_def split: list.splits)
qed

lemma goroutine_work:
  assumes "goroutine_step io s t" and "ctxDone s" and "\<not> crashed s"
  shows "t = s \<or> work t < work s"
  using assms(1)
proof cases
  case (CapRead rd b)
  then show ?thesis using assms(3) queued_capture [OF CapRead(4)] by (simp add: work_def)
next
  case (SendEncode frame ch b m)
  then show ?thesis using assms(3) queued_send [OF SendEncode(3,4)] by (simp add: work_def split: option.splits)
next
  case (RecvPing ob b2 ts b pong)
  then show ?thesis using assms(3) queued_ping [OF RecvPing(3)] queued_encode(2) [OF RecvPing(4)] by (simp add: work_def)
next
  case (RecvOther ob b)
  then show ?thesis using assms(3) queued_recv [OF RecvOther(5)] by (simp add: work_def)
next
  case (InjFrame wr b)
  then show ?thesis using assms(3) queued_inject [OF InjFrame(4)] by (auto simp: work_def)
qed (use assms(2,3) in \<open>auto simp: work_def dest: queued_exit\<close>)

lemma main_work:
  assumes "main_step s t" and "\<not> crashed s"
  shows "work t < work s"
  using assms(1) by cases (use assms(2) in \<open>auto simp: work_def dest: queued_once\<close>)

lemma tick_work: "tick_step s t \<Longrightarrow> \<not> crashed s \<Longrightarrow> work t \<le> Suc (work s)"
  by (cases rule: tick_step.cases) (auto simp: work_def dest!: queued_lock queued_encode(1))

text \<open>
  A schedule with the number of steps the program takes on its own and the number of events from
  outside: ticks, a cancellation, a capture that becomes available. A blocked loop takes no step.
\<close>

inductive schedule :: "'h pcap_io \<Rightarrow> 'h Run \<Rightarrow> nat \<Rightarrow> nat \<Rightarrow> 'h Run \<Rightarrow> bool" for io s where
  Begin: "schedule io s 0 0 s"
| Program: "schedule io s n k t \<Longrightarrow> \<not> crashed t \<Longrightarrow> goroutine_step io t u \<or> main_step t u \<Longrightarrow> u \<noteq> t \<Longrightarrow>
    schedule io s (Suc n) k u"
| Outside: "schedule io s n k t \<Longrightarrow> \<not> crashed t \<Longrightarrow>
    tick_step t u \<or> u = t\<lparr>ctxDone := True\<rparr> \<or> (\<exists>cap b. SetCapture (Some cap) (bridge t) = Ret b \<and> u = t\<lparr>bridge := b\<rparr>) \<Longrightarrow>
    schedule io s n (Suc k) u"

lemma run_schedule: "(run_step io)\<^sup>*\<^sup>* s t \<Longrightarrow> \<exists>n k. schedule io s n k t"
proof (induction rule: rtranclp_induct)
  case base
  show ?case using Begin by blast
next
  case (step t u)
  from step.hyps(2) show ?case
    by cases (use step.IH Program Outside in metis)+
qed

lemma schedule_run: "schedule io s n k t \<Longrightarrow> (run_step io)\<^sup>*\<^sup>* s t"
proof (induction rule: schedule.induct)
  case (Program n k t u)
  then show ?case using then_goroutine then_caller by metis
next
  case (Outside n k t u)
  then show ?case using then_tick then_cancel SetCap rtranclp.rtrancl_into_rtrancl by metis
qed simp

lemma run_steps_ctx: "(run_step io)\<^sup>*\<^sup>* s t \<Longrightarrow> ctxDone s \<Longrightarrow> ctxDone t"
  by (induction rule: rtranclp_induct) (auto dest: run_step_ctx)

lemma schedule_work:
  assumes "schedule io s n k t" and "ctxDone s"
  shows "n + work t \<le> work s + k"
  using assms(1)
proof (induction rule: schedule.induct)
  case (Program n k t u)
  have "ctxDone t" using run_steps_ctx schedule_run Program.hyps(1) assms(2) by blast
  then have "work u < work t" using Program.hyps goroutine_work main_work by blast
  then show ?case using Program.IH by simp
next
  case (Outside n k t u)
  have "work (t\<lparr>bridge := b\<rparr>) = work t" if "SetCapture (Some cap) (bridge t) = Ret b" for cap b
    using that by (auto simp: SetCapture_def work_def split: if_splits)
  moreover have "work (t\<lparr>ctxDone := True\<rparr>) = work t" by (simp add: work_def)
  ultimately have "work u \<le> Suc (work t)" using Outside.hyps(2,3) tick_work by fastforce
  then show ?case using Outside.IH by simp
qed simp

text \<open>
  C9. A shutdown terminates under every schedule: from a state in which the context is cancelled, the
  program takes at most 791 steps of its own plus one for each event from outside, and it is never
  stuck: unless it has crashed or \<^verbatim>\<open>Run\<close> has returned, some goroutine or the caller can take a step.
  So with finitely many further ticks every run ends with a return or a crash. The bound counts two
  steps for each of 256 frames to send, one for each of 256 frames to inject, and the steps that the
  goroutines and the caller need to leave. The capture library's read is assumed to return.
\<close>

theorem shutdown_terminates:
  assumes "schedule io s n k t" and "ctxDone s" and "bridge_ok (bridge s)" and "reads io \<noteq> {}"
  shows "n \<le> 791 + k \<and>
     (crashed t \<or> (\<exists>r. mainPc t = Returned r) \<or> (\<exists>u. u \<noteq> t \<and> (goroutine_step io t u \<or> main_step t u)))"
proof -
  have "n \<le> 791 + k" using schedule_work [OF assms(1,2)] work_bound [OF assms(3)] by simp
  moreover have "ctxDone t" using run_steps_ctx schedule_run assms(1,2) by blast
  then have "\<exists>u. u \<noteq> t \<and> (goroutine_step io t u \<or> main_step t u)" if "\<not> crashed t" "\<forall>r. mainPc t \<noteq> Returned r"
    using program_progress [of t] assms(4) that by fastforce
  ultimately show ?thesis by blast
qed

theorem shutdown_terminates_witness:
  "\<exists>t. schedule sample_io (Run_start True (sample_bridge [])) 1 0 t \<and>
     (crashed t \<or> (\<exists>r. mainPc t = Returned r) \<or> (\<exists>u. u \<noteq> t \<and> (goroutine_step sample_io t u \<or> main_step t u)))"
proof -
  let ?s = "Run_start True (sample_bridge [])"
  have "goroutine_step sample_io ?s (?s\<lparr>capPc := CapGone\<rparr>)" by (rule CapExit) (simp_all add: Run_start_fields)
  moreover have "capPc (?s\<lparr>capPc := CapGone\<rparr>) \<noteq> capPc ?s" by (simp add: Run_start_fields)
  then have "?s\<lparr>capPc := CapGone\<rparr> \<noteq> ?s" by metis
  moreover have "\<not> crashed ?s" by (simp add: Run_start_fields)
  ultimately have run: "schedule sample_io ?s (Suc 0) 0 (?s\<lparr>capPc := CapGone\<rparr>)"
    using Program [OF Begin] by blast
  then show ?thesis using shutdown_terminates [OF run] bridge_ok_sample
    by (auto simp: Run_start_fields sample_io_def)
qed

end
