(* ===== verification/Config_Store.thy ===== *)
theory Config_Store
  imports Json
begin

text \<open>
  The persistent configuration (\<^verbatim>\<open>internal/config/config.go\<close>): paths as \<^verbatim>\<open>path/filepath\<close> builds
  them on Unix, a file store, loading with \<^verbatim>\<open>encoding/json\<close>'s rules for a struct with one string
  field, saving, and the stored MAC address.
\<close>

section \<open>Paths\<close>

fun split_slash :: "string \<Rightarrow> string list" where
  "split_slash [] = [[]]"
| "split_slash (c # s) =
     (if c = CHR ''/'' then [] # split_slash s
      else case split_slash s of [] \<Rightarrow> [[c]] | p # ps \<Rightarrow> (c # p) # ps)"

text \<open>One path element on the stack of elements kept so far, last one first.\<close>

definition clean_step :: "bool \<Rightarrow> string list \<Rightarrow> string \<Rightarrow> string list" where
  "clean_step rooted stack e =
     (if e = [] \<or> e = ''.'' then stack
      else if e = ''..'' then
        (case stack of
           [] \<Rightarrow> if rooted then [] else [e]
         | t # r \<Rightarrow> if t = ''..'' then e # stack else r)
      else e # stack)"

definition filepath_Clean :: "string \<Rightarrow> string" where
  "filepath_Clean p =
     (let rooted = (take 1 p = ''/'');
          q = (if rooted then ''/'' else []) @ Join (rev (foldl (clean_step rooted) [] (split_slash p))) ''/''
      in if q = [] then ''.'' else q)"

definition filepath_Join :: "string list \<Rightarrow> string" where
  "filepath_Join es =
     (case dropWhile (\<lambda>e. e = []) es of [] \<Rightarrow> [] | fs \<Rightarrow> filepath_Clean (Join fs ''/''))"

definition filepath_Dir :: "string \<Rightarrow> string" where
  "filepath_Dir p = filepath_Clean (rev (dropWhile (\<lambda>c. c \<noteq> CHR ''/'') (rev p)))"

section \<open>Configuration\<close>

record StoredConfig =
  LastXboxMAC :: string

definition empty_config :: StoredConfig where
  "empty_config = \<lparr>LastXboxMAC = []\<rparr>"

datatype config_error = HomeDirFailed | ReadFailed | ParseFailed | MkdirFailed | SaveFailed

text \<open>\<^verbatim>\<open>os.UserHomeDir\<close> returns a directory or fails.\<close>

definition DefaultConfigDir :: "string option \<Rightarrow> config_error + string" where
  "DefaultConfigDir home =
     (case home of None \<Rightarrow> Inl HomeDirFailed | Some h \<Rightarrow> Inr (filepath_Join [h, ''.xbslink-ng'']))"

definition DefaultConfigPath :: "string option \<Rightarrow> config_error + string" where
  "DefaultConfigPath home =
     (case DefaultConfigDir home of Inl e \<Rightarrow> Inl e | Inr dir \<Rightarrow> Inr (filepath_Join [dir, ''config.json'']))"

text \<open>
  The files by path. Reading an existing file may fail; a write may fail on opening, or after it
  truncated the file and wrote a part of the data.
\<close>

type_synonym fs = "string \<Rightarrow> string option"

datatype read_fault = ReadWorks | ReadFault
datatype write_fault = WriteWorks | OpenFault | PartFault nat

definition ReadFile :: "read_fault \<Rightarrow> fs \<Rightarrow> string \<Rightarrow> string option option" where
  "ReadFile flt f path =
     (case f path of None \<Rightarrow> Some None
      | Some d \<Rightarrow> (case flt of ReadWorks \<Rightarrow> Some (Some d) | ReadFault \<Rightarrow> None))"

definition WriteFile :: "write_fault \<Rightarrow> fs \<Rightarrow> string \<Rightarrow> string \<Rightarrow> fs \<times> bool" where
  "WriteFile flt f path d =
     (case flt of
        WriteWorks \<Rightarrow> (f(path \<mapsto> d), True)
      | OpenFault \<Rightarrow> (f, False)
      | PartFault n \<Rightarrow> (f(path \<mapsto> take n d), False))"

text \<open>
  \<^verbatim>\<open>json.Unmarshal\<close> into the struct: object keys match the field's name exactly or under case
  folding (where the long s folds to S), later ones overwrite earlier ones, null leaves the field,
  any other type for the field or for the document is an error.
\<close>

definition field_name :: string where "field_name = ''last_xbox_mac''"

definition to_upper_char :: "char \<Rightarrow> char" where
  "to_upper_char c = (if 97 \<le> code c \<and> code c \<le> 122 then char_of (code c - 32) else c)"

fun foldName :: "string \<Rightarrow> string" where
  "foldName [] = []"
| "foldName [c] = [to_upper_char c]"
| "foldName (c # d # s) =
     (if code c = 197 \<and> code d = 191 then CHR ''S'' # foldName s
      else to_upper_char c # foldName (d # s))"

definition field_match :: "string \<Rightarrow> bool" where
  "field_match k \<longleftrightarrow> k = field_name \<or> foldName k = foldName field_name"

fun set_fields :: "(string \<times> json) list \<Rightarrow> StoredConfig \<Rightarrow> StoredConfig \<times> bool" where
  "set_fields [] c = (c, True)"
| "set_fields ((k, v) # ms) c =
     (if \<not> field_match k then set_fields ms c
      else case v of
        JStr s \<Rightarrow> set_fields ms (c\<lparr>LastXboxMAC := s\<rparr>)
      | JNull \<Rightarrow> set_fields ms c
      | _ \<Rightarrow> (fst (set_fields ms c), False))"

definition Unmarshal :: "string \<Rightarrow> StoredConfig option" where
  "Unmarshal d =
     (case json_parse d of
        Some (JObj ms) \<Rightarrow>
          (case set_fields ms empty_config of (c, ok) \<Rightarrow> if ok then Some c else None)
      | Some JNull \<Rightarrow> Some empty_config
      | _ \<Rightarrow> None)"

definition LoadFrom :: "read_fault \<Rightarrow> fs \<Rightarrow> string \<Rightarrow> config_error + StoredConfig" where
  "LoadFrom flt f path =
     (case ReadFile flt f path of
        None \<Rightarrow> Inl ReadFailed
      | Some None \<Rightarrow> Inr empty_config
      | Some (Some d) \<Rightarrow> (case Unmarshal d of None \<Rightarrow> Inl ParseFailed | Some c \<Rightarrow> Inr c))"

definition Load :: "string option \<Rightarrow> read_fault \<Rightarrow> fs \<Rightarrow> config_error + StoredConfig" where
  "Load home flt f =
     (case DefaultConfigPath home of Inl e \<Rightarrow> Inl e | Inr path \<Rightarrow> LoadFrom flt f path)"

text \<open>\<^verbatim>\<open>json.MarshalIndent\<close> with the field left out when it is empty.\<close>

definition MarshalIndent :: "StoredConfig \<Rightarrow> string" where
  "MarshalIndent c =
     json_object_indent
       (if LastXboxMAC c = [] then [] else [(field_name, json_string True (LastXboxMAC c))])"

definition SaveTo :: "bool \<Rightarrow> write_fault \<Rightarrow> fs \<Rightarrow> StoredConfig \<Rightarrow> string \<Rightarrow> fs \<times> config_error option" where
  "SaveTo mkdir_ok flt f c path =
     (if \<not> mkdir_ok then (f, Some MkdirFailed)
      else case WriteFile flt f path (MarshalIndent c) of
        (f', ok) \<Rightarrow> (f', if ok then None else Some SaveFailed))"

definition Save :: "string option \<Rightarrow> bool \<Rightarrow> write_fault \<Rightarrow> fs \<Rightarrow> StoredConfig \<Rightarrow> fs \<times> config_error option" where
  "Save home mkdir_ok flt f c =
     (case DefaultConfigPath home of Inl e \<Rightarrow> (f, Some e) | Inr path \<Rightarrow> SaveTo mkdir_ok flt f c path)"

definition GetXboxMAC :: "StoredConfig \<Rightarrow> HardwareAddr option" where
  "GetXboxMAC c = (if LastXboxMAC c = [] then None else net_ParseMAC (LastXboxMAC c))"

definition SetXboxMAC :: "HardwareAddr \<Rightarrow> StoredConfig \<Rightarrow> StoredConfig" where
  "SetXboxMAC mac c = c\<lparr>LastXboxMAC := HardwareAddr_String mac\<rparr>"

section \<open>Round trips\<close>

lemma escape_field_name: "json_escape True field_name = field_name"
  by (simp add: field_name_def escape_ascii_def quote_def backslash_def)

lemma ws_simps [simp]:
  "\<not> is_ws (CHR ''{'')" "\<not> is_ws (CHR ''}'')" "\<not> is_ws (CHR '':'')" "\<not> is_ws quote"
  "is_ws (char_of (10 :: nat))" "is_ws (CHR '' '')"
  by (simp_all add: is_ws_def quote_def)

lemma chars_differ [simp]:
  "quote \<noteq> CHR ''{''" "quote \<noteq> CHR ''[''" "CHR ''{'' \<noteq> quote" "CHR ''}'' \<noteq> quote" "quote \<noteq> CHR ''}''"
  by (simp_all add: quote_def)

lemma read_json_string:
  "ascii s \<Longrightarrow> read_value (Suc n) (json_string html s @ r) = Some (JStr s, r)"
  by (simp add: json_string_def read_string_escape)

lemma read_one_member:
  assumes "ascii s" and "ascii k"
  shows "read_members (Suc (Suc n)) (char_of (10 :: nat) # ''  '' @ json_string True k @ '': '' @
           json_string True s @ [char_of (10 :: nat)] @ ''}'') = Some ([(k, JStr s)], [])"
proof -
  have k: "read_string (json_escape True k @ quote # r) = Some (k, r)" for r
    using assms(2) by (rule read_string_escape)
  have v: "read_value (Suc n) (CHR '' '' # json_string True s @ r) = Some (JStr s, r)" for r
    using read_string_escape [OF assms(1), of True r] by (simp add: json_string_def)
  show ?thesis
    using v [of "char_of (10 :: nat) # ''}''"]
    by (simp add: json_string_def [of True k] k Let_def del: read_value.simps)
qed

lemma ascii_field_name: "ascii field_name"
  by (simp add: field_name_def)

lemma read_value_object:
  "take 1 (skip_ws r) \<noteq> ''}'' \<Longrightarrow> read_members n r = Some (ms, t) \<Longrightarrow>
   read_value (Suc n) (CHR ''{'' # r) = Some (JObj ms, t)"
  by simp

lemma Unmarshal_Marshal:
  assumes "ascii (LastXboxMAC c)"
  shows "Unmarshal (MarshalIndent c) = Some c"
proof (cases "LastXboxMAC c = []")
  case True
  have "read_value 6 ''{}'' = Some (JObj [], [])" by (simp add: eval_nat_numeral)
  with True have "json_parse (MarshalIndent c) = Some (JObj [])"
    by (simp add: MarshalIndent_def json_object_indent_def json_parse_def)
  with True show ?thesis by (simp add: Unmarshal_def empty_config_def)
next
  case False
  let ?nl = "char_of (10 :: nat)"
  let ?body = "?nl # ''  '' @ json_string True field_name @ '': '' @ json_string True (LastXboxMAC c) @ [?nl] @ ''}''"
  have m: "MarshalIndent c = CHR ''{'' # ?body"
    using False by (simp add: MarshalIndent_def json_object_indent_def Let_def)
  have "take 1 (skip_ws ?body) \<noteq> ''}''" by (simp add: json_string_def)
  then have "read_value (Suc (Suc (Suc n))) (CHR ''{'' # ?body) = Some (JObj [(field_name, JStr (LastXboxMAC c))], [])" for n
    using read_one_member [OF assms ascii_field_name] by (rule read_value_object)
  moreover have "2 * length (CHR ''{'' # ?body) + 2 = Suc (Suc (Suc (2 * length ?body + 1)))" by simp
  ultimately have "read_value (2 * length (MarshalIndent c) + 2) (MarshalIndent c) =
      Some (JObj [(field_name, JStr (LastXboxMAC c))], [])" unfolding m by metis
  then have "json_parse (MarshalIndent c) = Some (JObj [(field_name, JStr (LastXboxMAC c))])"
    by (simp add: json_parse_def)
  then show ?thesis by (simp add: Unmarshal_def field_match_def empty_config_def)
qed



lemma digit_char_ascii: "d < 16 \<Longrightarrow> code (digit_char d) < 128"
  by (auto simp: digit_char_def take_bit_nat_eq_self)

lemma ascii_append [simp]: "ascii (s @ t) \<longleftrightarrow> ascii s \<and> ascii t"
  by (auto simp: ascii_def)

lemma ascii_fmt_02x: "ascii (fmt_02x b)"
proof -
  have "unat b < 256" using unsigned_less [of b, where 'a = nat] by simp
  then show ?thesis by (simp add: fmt_02x_def digit_char_ascii)
qed

lemma ascii_mac: "ascii (HardwareAddr_String m)"
proof -
  have "ascii (Join (map fmt_02x m) '':'')"
    by (induction m rule: induct_list012) (simp_all add: ascii_fmt_02x)
  then show ?thesis by (simp add: HardwareAddr_String_def)
qed

lemma GetXboxMAC_Set:
  assumes "length mac = 6 \<or> length mac = 8 \<or> length mac = 20"
  shows "GetXboxMAC (SetXboxMAC mac c) = Some mac"
proof -
  have "HardwareAddr_String mac \<noteq> []"
    using net_ParseMAC_String [OF assms] by (auto simp: net_ParseMAC_def)
  then show ?thesis using net_ParseMAC_String [OF assms] by (simp add: GetXboxMAC_def SetXboxMAC_def)
qed

text \<open>
  The MAC address survives the store: setting a six-byte address, saving and loading gives a
  configuration whose \<^verbatim>\<open>GetXboxMAC\<close> is that address.
\<close>

lemma XboxMAC_roundtrip:
  assumes "length mac = 6" and "SaveTo mkdir_ok flt f (SetXboxMAC mac c) path = (f', None)"
  shows "\<exists>c'. LoadFrom ReadWorks f' path = Inr c' \<and> GetXboxMAC c' = Some mac"
proof -
  have "f' = f(path \<mapsto> MarshalIndent (SetXboxMAC mac c))"
    using assms(2) by (auto simp: SaveTo_def WriteFile_def split: if_splits write_fault.splits)
  moreover have "Unmarshal (MarshalIndent (SetXboxMAC mac c)) = Some (SetXboxMAC mac c)"
    by (rule Unmarshal_Marshal) (simp add: SetXboxMAC_def ascii_mac)
  ultimately show ?thesis
    using GetXboxMAC_Set [of mac c] assms(1) by (simp add: LoadFrom_def ReadFile_def)
qed

end
