(* ===== verification/Discovery.thy ===== *)
theory Discovery
  imports Capture
begin

text \<open>
  Passive discovery of a console (\<^verbatim>\<open>internal/discovery/discovery.go\<close>): interface lookup, opening
  a filtered pcap handle, and the loop that waits for the first frame with a unicast source. The
  pcap library is the parameter of the capture theory; the loop reads a script of observations.
\<close>

definition XboxSystemLinkPort :: nat where "XboxSystemLinkPort = 3074"
definition disc_SnapLen :: nat where "disc_SnapLen = 128"
definition disc_ReadTimeout :: int where "disc_ReadTimeout = 100 * 1000000"

datatype discovery_error =
    ErrDiscoveryCancelled
  | Disc_ErrInterfaceNotFound string
  | Disc_ListFailed
  | Disc_InactiveFailed
  | Disc_SnapLenFailed
  | Disc_PromiscFailed
  | Disc_TimeoutFailed
  | Disc_ActivateFailed
  | Disc_FilterFailed

record Result =
  MAC :: HardwareAddr
  LastSeen :: int

section \<open>Operations\<close>

definition findInterface :: "('i, 'h) pcap \<Rightarrow> string \<Rightarrow> discovery_error + string" where
  "findInterface p name =
     (case FindAllDevs p of
        None \<Rightarrow> Inl Disc_ListFailed
      | Some devices \<Rightarrow>
          (let nameLower = ToLower name in
           case find (\<lambda>d. dev_Name d = name) devices of
             Some d \<Rightarrow> Inr (dev_Name d)
           | None \<Rightarrow>
               (case find (\<lambda>d. ToLower (dev_Name d) = nameLower) devices of
                  Some d \<Rightarrow> Inr (dev_Name d)
                | None \<Rightarrow>
                    (case find (\<lambda>d. Contains (ToLower (dev_Description d)) nameLower) devices of
                       Some d \<Rightarrow> Inr (dev_Name d)
                     | None \<Rightarrow> Inl (Disc_ErrInterfaceNotFound name)))))"

text \<open>
  An iteration sees whether the context is done, what the read returns and the clock. Every read
  error, the timeout included, continues.
\<close>

record disc_obs =
  d_done :: bool
  d_read :: "pcap_error + bytes"
  d_now :: int

definition Discover_iter ::
    "disc_obs \<Rightarrow> unit \<Rightarrow> unit \<times> (discovery_error, Result) outcome iteration" where
  "Discover_iter ob s =
     (s, if d_done ob then Return (Err ErrDiscoveryCancelled)
         else case d_read ob of
           Inl e \<Rightarrow> Continue
         | Inr data \<Rightarrow>
             if length data < 14 then Continue
             else case go_slice 6 12 data of
               None \<Rightarrow> Return Panic
             | Some srcMAC \<Rightarrow>
                 (case go_index srcMAC 0 of
                    None \<Rightarrow> Return Panic
                  | Some b0 \<Rightarrow>
                      if b0 AND 1 \<noteq> 0 then Continue
                      else Return (Ret \<lparr>MAC = srcMAC, LastSeen = d_now ob\<rparr>)))"

definition disc_configure :: "('i, 'h) pcap \<Rightarrow> 'i \<Rightarrow> discovery_error + 'i" where
  "disc_configure p i0 =
     (case SetSnapLen p disc_SnapLen i0 of None \<Rightarrow> Inl Disc_SnapLenFailed
      | Some i1 \<Rightarrow> (case SetPromisc p True i1 of None \<Rightarrow> Inl Disc_PromiscFailed
        | Some i2 \<Rightarrow> (case SetTimeout p disc_ReadTimeout i2 of None \<Rightarrow> Inl Disc_TimeoutFailed
          | Some i3 \<Rightarrow> Inr i3)))"

definition disc_filter :: string where
  "disc_filter = ''udp port '' @ fmt_d XboxSystemLinkPort"

text \<open>
  The result is \<^const>\<open>None\<close> while the loop is listening. The deferred releases run when the
  function returns, the handle's before the inactive handle's.
\<close>

definition Discover ::
    "('i, 'h) pcap \<Rightarrow> string \<Rightarrow> disc_obs list \<Rightarrow>
     (discovery_error, Result) outcome option \<times> pcap_call list" where
  "Discover p iface obs =
     (case findInterface p iface of
        Inl e \<Rightarrow> (Some (Err e), [])
      | Inr name \<Rightarrow>
          (case NewInactiveHandle p name of
             None \<Rightarrow> (Some (Err Disc_InactiveFailed), [])
           | Some i0 \<Rightarrow>
               (case disc_configure p i0 of
                  Inl e \<Rightarrow> (Some (Err e), [InactiveOpened name, InactiveCleanedUp])
                | Inr i1 \<Rightarrow>
                    (case Activate p i1 of
                       None \<Rightarrow> (Some (Err Disc_ActivateFailed), [InactiveOpened name, InactiveCleanedUp])
                     | Some h0 \<Rightarrow>
                         (case SetBPFFilter p disc_filter h0 of
                            None \<Rightarrow> (Some (Err Disc_FilterFailed),
                              [InactiveOpened name, HandleActivated, FilterRequested disc_filter,
                               HandleClosed, InactiveCleanedUp])
                          | Some h1 \<Rightarrow>
                              (let r = snd (script_loop Discover_iter obs ());
                                   tr = [InactiveOpened name, HandleActivated, FilterRequested disc_filter]
                               in (r, tr @ (if r = None then [] else [HandleClosed, InactiveCleanedUp]))))))))"

section \<open>What discovery reports\<close>

text \<open>A frame with a full header and a unicast source address.\<close>

definition from_console :: "disc_obs \<Rightarrow> bool" where
  "from_console ob \<longleftrightarrow>
     (case d_read ob of Inl e \<Rightarrow> False | Inr data \<Rightarrow> 14 \<le> length data \<and> (data ! 6) AND 1 = 0)"

definition frame_source :: "disc_obs \<Rightarrow> HardwareAddr" where
  "frame_source ob = (case d_read ob of Inl e \<Rightarrow> [] | Inr data \<Rightarrow> sub_slice 6 12 data)"

lemma Discover_iter_eq:
  "Discover_iter ob s =
     (s, if d_done ob then Return (Err ErrDiscoveryCancelled)
         else if from_console ob then Return (Ret \<lparr>MAC = frame_source ob, LastSeen = d_now ob\<rparr>)
         else Continue)"
proof -
  have "go_slice 6 12 data = Some (sub_slice 6 12 data)" "go_index (sub_slice 6 12 data) 0 = Some (data ! 6)"
    if "14 \<le> length data" for data :: bytes
    using that by (auto simp: go_slice_def go_index_def sub_slice_def)
  then show ?thesis
    by (auto simp: Discover_iter_def from_console_def frame_source_def split: sum.splits)
qed

text \<open>
  C37. The discovery loop ends at the first observation that cancels it or shows a console: with
  the cancellation error in the first case, with the source address of that frame in the second,
  six bytes and not a group address; read errors, timeouts, short frames and frames from group
  addresses only make it wait, and nothing makes it panic.
\<close>

theorem Discover_first:
  "snd (script_loop Discover_iter obs ()) =
     (case find (\<lambda>ob. d_done ob \<or> from_console ob) obs of
        None \<Rightarrow> None
      | Some ob \<Rightarrow> Some (if d_done ob then Err ErrDiscoveryCancelled
                        else Ret \<lparr>MAC = frame_source ob, LastSeen = d_now ob\<rparr>)) \<and>
   (\<forall>r. snd (script_loop Discover_iter obs ()) = Some (Ret r) \<longrightarrow>
        length (MAC r) = 6 \<and> hd (MAC r) AND 1 = 0)"
proof -
  have eq: "snd (script_loop Discover_iter obs ()) =
     (case find (\<lambda>ob. d_done ob \<or> from_console ob) obs of
        None \<Rightarrow> None
      | Some ob \<Rightarrow> Some (if d_done ob then Err ErrDiscoveryCancelled
                        else Ret \<lparr>MAC = frame_source ob, LastSeen = d_now ob\<rparr>))"
    by (induction obs) (auto simp: Discover_iter_eq)
  have "length (frame_source ob) = 6 \<and> hd (frame_source ob) AND 1 = 0" if "from_console ob" for ob
    using that by (auto simp: from_console_def frame_source_def sub_slice_def hd_conv_nth split: sum.splits)
  then have "length (MAC r) = 6 \<and> hd (MAC r) AND 1 = 0"
    if "snd (script_loop Discover_iter obs ()) = Some (Ret r)" for r
    using that find_first [of "\<lambda>ob. d_done ob \<or> from_console ob" obs]
    by (auto simp: eq split: option.splits if_splits)
  with eq show ?thesis by blast
qed

theorem Discover_first_witness:
  "\<exists>r. snd (script_loop Discover_iter
      [\<lparr>d_done = False, d_read = Inl NextErrorTimeoutExpired, d_now = 1\<rparr>,
       \<lparr>d_done = False, d_read = Inr (replicate 6 0xff @ [0, 80, 242, 1, 2, 3, 8, 0]), d_now = 9\<rparr>] ()) = Some (Ret r) \<and>
     length (MAC r) = 6 \<and> hd (MAC r) AND 1 = 0"
proof -
  let ?obs = "[\<lparr>d_done = False, d_read = Inl NextErrorTimeoutExpired, d_now = 1\<rparr>,
    \<lparr>d_done = False, d_read = Inr (replicate 6 0xff @ [0, 80, 242, 1, 2, 3, 8, 0]), d_now = 9\<rparr>]"
  have "snd (script_loop Discover_iter ?obs ()) = Some (Ret \<lparr>MAC = [0, 80, 242, 1, 2, 3], LastSeen = 9\<rparr>)"
    by (simp add: Discover_iter_eq from_console_def frame_source_def sub_slice_def nth_append)
  then show ?thesis using Discover_first [of ?obs] by blast
qed

lemma find_ranked_map: "find_ranked r (map f xs) = map_option f (find_ranked (r \<circ> f) xs)"
proof -
  have "find P (map f xs) = map_option f (find (P \<circ> f) xs)" for P by (induction xs) auto
  then show ?thesis by (auto simp: find_ranked_def o_def split: option.splits)
qed

lemma findInterface_ranked:
  "FindAllDevs p = Some devs \<Longrightarrow>
   findInterface p name =
     (case find_ranked (\<lambda>d. match_rank name (dev_Name d) (dev_Description d)) devs of
        Some d \<Rightarrow> Inr (dev_Name d) | None \<Rightarrow> Inl (Disc_ErrInterfaceNotFound name))"
  unfolding three_searches [where nm = dev_Name and ds = dev_Description, symmetric]
  by (auto simp: findInterface_def Let_def split: option.splits)

text \<open>
  C36. Discovery and capture agree on interfaces: for every name, and wherever the capture's
  platform check passes, the lookup of discovery names the interface that \<^verbatim>\<open>FindInterface\<close> finds,
  and fails exactly when it fails.
\<close>

theorem findInterface_agrees:
  assumes "CheckNpcapInstalled goos p = None"
  shows "findInterface p name =
     (case FindInterface goos p name of
        Inr i \<Rightarrow> Inr (Name i)
      | Inl (ErrInterfaceNotFound n) \<Rightarrow> Inl (Disc_ErrInterfaceNotFound n)
      | Inl e \<Rightarrow> Inl Disc_ListFailed)"
proof (cases "FindAllDevs p")
  case None
  then show ?thesis using assms
    by (simp add: findInterface_def FindInterface_def ListInterfaces_def)
next
  case (Some devs)
  have l: "ListInterfaces goos p = Inr (map interface_info devs)"
    using assms Some by (simp add: ListInterfaces_def)
  have "(\<lambda>i. match_rank name (Name i) (Description i)) \<circ> interface_info =
      (\<lambda>d. match_rank name (dev_Name d) (dev_Description d))"
    by (simp add: fun_eq_iff interface_info_def)
  then show ?thesis
    by (auto simp: findInterface_ranked [OF Some] FindInterface_ranked [OF l] find_ranked_map
        interface_info_def split: option.splits)
qed

theorem findInterface_agrees_witness:
  "findInterface sample_pcap ''eth0'' =
     (case FindInterface ''linux'' sample_pcap ''eth0'' of
        Inr i \<Rightarrow> Inr (Name i)
      | Inl (ErrInterfaceNotFound n) \<Rightarrow> Inl (Disc_ErrInterfaceNotFound n)
      | Inl e \<Rightarrow> Inl Disc_ListFailed)"
  by (rule findInterface_agrees) (simp add: CheckNpcapInstalled_def)

text \<open>
  Discovery releases its handles: whenever it has returned, an activated handle was closed and
  then the inactive handle was cleaned up; while it is still listening nothing has been released.
\<close>

lemma Discover_releases:
  "case Discover p iface obs of (r, tr) \<Rightarrow>
     (if r = None then HandleActivated \<in> set tr \<and> HandleClosed \<notin> set tr
      else (HandleActivated \<in> set tr \<longrightarrow> HandleClosed \<in> set tr) \<and> (tr = [] \<or> last tr = InactiveCleanedUp))"
  by (auto simp: Discover_def Let_def split: option.splits sum.splits)

end
