(* ===== verification/Command_Line.thy ===== *)
theory Command_Line
  imports Transport Capture
begin

text \<open>
  The command line (first half of \<^verbatim>\<open>cmd/xbslink-ng/main.go\<close>): the flag syntax of package
  \<^verbatim>\<open>flag\<close> with the string and unsigned flags the program declares, the validation of \<^verbatim>\<open>listen\<close> and
  \<^verbatim>\<open>connect\<close>, and the dispatch on the command. A left result is the exit status of the process;
  diagnostics on standard error are not part of the results.
\<close>

section \<open>Unsigned numbers: strconv.ParseUint with base 0\<close>

definition uint_digit :: "char \<Rightarrow> nat option" where
  "uint_digit c =
     (let n = of_char c :: nat; l = of_char (to_lower_char c) :: nat in
      if 48 \<le> n \<and> n \<le> 57 then Some (n - 48)
      else if 97 \<le> l \<and> l \<le> 122 then Some (l - 97 + 10)
      else None)"

fun uint_value :: "nat \<Rightarrow> string \<Rightarrow> nat \<Rightarrow> nat option" where
  "uint_value base [] n = Some n"
| "uint_value base (c # s) n =
     (if c = CHR ''_'' then uint_value base s n
      else case uint_digit c of
        None \<Rightarrow> None
      | Some d \<Rightarrow> if base \<le> d then None else uint_value base s (n * base + d))"

text \<open>The base announced by a prefix, and the digits after it.\<close>

definition uint_base :: "string \<Rightarrow> nat \<times> string" where
  "uint_base s =
     (if take 1 s = ''0'' then
        (let p = (if 3 \<le> length s then to_lower_char (s ! 1) else CHR '' '') in
         if p = CHR ''b'' then (2, drop 2 s)
         else if p = CHR ''o'' then (8, drop 2 s)
         else if p = CHR ''x'' then (16, drop 2 s)
         else (8, drop 1 s))
      else (10, s))"

text \<open>
  Underscores only between digits or after a base prefix. The first argument is whether letters are
  digits, the second whether an underscore may follow, the third whether one has just been read.
\<close>

fun underscore_scan :: "bool \<Rightarrow> bool \<Rightarrow> bool \<Rightarrow> string \<Rightarrow> bool" where
  "underscore_scan hex digit pending [] = (\<not> pending)"
| "underscore_scan hex digit pending (c # s) =
     (if (case uint_digit c of None \<Rightarrow> False | Some d \<Rightarrow> d < (if hex then 16 else 10))
      then underscore_scan hex True False s
      else if c = CHR ''_'' then digit \<and> underscore_scan hex False True s
      else \<not> pending \<and> underscore_scan hex False False s)"

definition underscoreOK :: "string \<Rightarrow> bool" where
  "underscoreOK s0 =
     (let s = (if take 1 s0 = ''-'' \<or> take 1 s0 = ''+'' then drop 1 s0 else s0);
          p = (if 2 \<le> length s \<and> s ! 0 = CHR ''0'' then to_lower_char (s ! 1) else CHR '' '') in
      if p = CHR ''b'' \<or> p = CHR ''o'' \<or> p = CHR ''x''
      then underscore_scan (p = CHR ''x'') True False (drop 2 s)
      else underscore_scan False False False s)"

definition ParseUint :: "string \<Rightarrow> nat option" where
  "ParseUint s =
     (if s = [] then None
      else case uint_base s of
        (base, ds) \<Rightarrow>
          (case uint_value base ds 0 of
             None \<Rightarrow> None
           | Some n \<Rightarrow>
               if 2 ^ 64 \<le> n then None
               else if CHR ''_'' \<in> set ds \<and> \<not> underscoreOK s then None
               else Some n))"

section \<open>Flags: flag.FlagSet.Parse\<close>

datatype flag_value = StringFlag string | UintFlag nat

definition set_value :: "flag_value \<Rightarrow> string \<Rightarrow> flag_value option" where
  "set_value old s =
     (case old of
        StringFlag t \<Rightarrow> Some (StringFlag s)
      | UintFlag n \<Rightarrow> map_option UintFlag (ParseUint s))"

datatype flag_arg = NotAFlag | BadFlagSyntax | Flag string "string option"

definition flag_token :: "string \<Rightarrow> flag_arg" where
  "flag_token s =
     (if length s < 2 \<or> s ! 0 \<noteq> CHR ''-'' then NotAFlag
      else if s = ''--'' then NotAFlag
      else
        let name = (if s ! 1 = CHR ''-'' then drop 2 s else drop 1 s) in
        if name ! 0 = CHR ''-'' \<or> name ! 0 = CHR ''='' then BadFlagSyntax
        else
          let key = hd name # takeWhile (\<lambda>c. c \<noteq> CHR ''='') (tl name);
              rest = dropWhile (\<lambda>c. c \<noteq> CHR ''='') (tl name)
          in Flag key (if rest = [] then None else Some (tl rest)))"

text \<open>
  Parsing stops at the first argument that is not a flag. The exit status is 0 for the undeclared
  help flags and 2 for every error, as \<^verbatim>\<open>flag.ExitOnError\<close> has it.
\<close>

fun parse_flags :: "(string \<Rightarrow> flag_value option) \<Rightarrow> string list \<Rightarrow> nat + (string \<Rightarrow> flag_value option)" where
  "parse_flags vs [] = Inr vs"
| "parse_flags vs (s # args) =
     (case flag_token s of
        NotAFlag \<Rightarrow> Inr vs
      | BadFlagSyntax \<Rightarrow> Inl 2
      | Flag name val \<Rightarrow>
          (case vs name of
             None \<Rightarrow> Inl (if name = ''help'' \<or> name = ''h'' then 0 else 2)
           | Some old \<Rightarrow>
               (case val of
                  Some v \<Rightarrow>
                    (case set_value old v of
                       None \<Rightarrow> Inl 2
                     | Some new \<Rightarrow> parse_flags (vs(name \<mapsto> new)) args)
                | None \<Rightarrow>
                    (case args of
                       [] \<Rightarrow> Inl 2
                     | v # rest \<Rightarrow>
                         (case set_value old v of
                            None \<Rightarrow> Inl 2
                          | Some new \<Rightarrow> parse_flags (vs(name \<mapsto> new)) rest)))))"

definition string_flag :: "(string \<Rightarrow> flag_value option) \<Rightarrow> string \<Rightarrow> string" where
  "string_flag vs name = (case vs name of Some (StringFlag s) \<Rightarrow> s | _ \<Rightarrow> [])"

definition uint_flag :: "(string \<Rightarrow> flag_value option) \<Rightarrow> string \<Rightarrow> nat" where
  "uint_flag vs name = (case vs name of Some (UintFlag n) \<Rightarrow> n | _ \<Rightarrow> 0)"

section \<open>Commands\<close>

definition defaultPort :: nat where "defaultPort = 31415"
definition defaultStatsInterval :: nat where "defaultStatsInterval = 30"
definition defaultLogLevel :: string where "defaultLogLevel = ''info''"

text \<open>The arguments of \<^verbatim>\<open>runBridge\<close>.\<close>

record run_args =
  ra_mode :: Mode
  ra_port :: uint16
  ra_peerAddr :: string
  ra_ifaceName :: string
  ra_xboxMACStr :: string
  ra_key :: string
  ra_logLevelStr :: string
  ra_statsInterval :: duration
  ra_eventsOutput :: string

definition listen_flags :: "string \<Rightarrow> flag_value option" where
  "listen_flags = map_of
     [(''port'', UintFlag defaultPort), (''interface'', StringFlag []), (''xbox-mac'', StringFlag []),
      (''key'', StringFlag []), (''log'', StringFlag defaultLogLevel),
      (''stats-interval'', UintFlag defaultStatsInterval), (''events-output'', StringFlag [])]"

definition connect_flags :: "string \<Rightarrow> flag_value option" where
  "connect_flags = map_of
     [(''address'', StringFlag []), (''port'', UintFlag 0), (''interface'', StringFlag []),
      (''xbox-mac'', StringFlag []), (''key'', StringFlag []), (''log'', StringFlag defaultLogLevel),
      (''stats-interval'', UintFlag defaultStatsInterval), (''events-output'', StringFlag [])]"

text \<open>\<^verbatim>\<open>time.Duration(n) * time.Second\<close> and \<^verbatim>\<open>uint16(n)\<close> wrap.\<close>

definition bridge_args :: "Mode \<Rightarrow> string \<Rightarrow> (string \<Rightarrow> flag_value option) \<Rightarrow> run_args" where
  "bridge_args m peer vs =
     \<lparr>ra_mode = m, ra_port = word_of_nat (uint_flag vs ''port''), ra_peerAddr = peer,
      ra_ifaceName = string_flag vs ''interface'', ra_xboxMACStr = string_flag vs ''xbox-mac'',
      ra_key = string_flag vs ''key'', ra_logLevelStr = string_flag vs ''log'',
      ra_statsInterval = word_of_nat (uint_flag vs ''stats-interval'') * 1000000000,
      ra_eventsOutput = string_flag vs ''events-output''\<rparr>"

definition runListen :: "string list \<Rightarrow> nat + run_args" where
  "runListen args =
     (case parse_flags listen_flags args of
        Inl status \<Rightarrow> Inl status
      | Inr vs \<Rightarrow>
          if string_flag vs ''interface'' = [] then Inl 1
          else if uint_flag vs ''port'' = 0 \<or> uint_flag vs ''port'' > 65535 then Inl 1
          else Inr (bridge_args ModeListen [] vs))"

definition runConnect :: "string list \<Rightarrow> nat + run_args" where
  "runConnect args =
     (case parse_flags connect_flags args of
        Inl status \<Rightarrow> Inl status
      | Inr vs \<Rightarrow>
          if string_flag vs ''address'' = [] then Inl 1
          else if string_flag vs ''interface'' = [] then Inl 1
          else if \<not> Contains (string_flag vs ''address'') '':'' then Inl 1
          else Inr (bridge_args ModeConnect (string_flag vs ''address'') vs))"

definition usage :: string where
  \<open>usage = help_lines
    [''xbslink-ng - P2P Xbox System Link Bridge'',
     '''',
     ''Usage:'',
     ''  xbslink-ng <command> [flags]'',
     '''',
     ''Commands:'',
     ''  listen      Listen for incoming peer connection (requires port forwarding)'',
     ''  connect     Connect to a listening peer'',
     ''  interfaces  List available network interfaces'',
     ''  version     Print version information'',
     '''',
     ''Flags for listen/connect:'',
     ''  --port            UDP port (listen: port to bind, connect: optional local port)'',
     ''  --address         Peer'' @ [CHR 0x27] @ ''s IP:port (connect mode only, required)'',
     ''  --interface       Network interface name (required)'',
     ''  --xbox-mac        Xbox MAC address (auto-detected if omitted)'',
     ''  --key             Pre-shared key for authentication (strongly recommended)'',
     ''  --log             Log level: error|warn|info|debug|trace (default: info)'',
     ''  --stats-interval  Seconds between stats output, 0 to disable (default: 30)'',
     ''  --events-output   Write JSON Line events to: stdout, stderr, or a file path (disabled if empty)'',
     '''',
     ''Examples:'',
     ''  # List network interfaces'',
     ''  xbslink-ng interfaces'',
     '''',
     ''  # Listen for incoming connection (port forward UDP 31415)'',
     ''  xbslink-ng listen --port 31415 --interface "Ethernet" --xbox-mac 00:50:F2:1A:2B:3C'',
     '''',
     ''  # Connect to a listening peer'',
     ''  xbslink-ng connect --address 203.0.113.50:31415 --interface "Ethernet" --xbox-mac 00:50:F2:4D:5E:6F'',
     '''',
     ''  # With authentication (recommended)'',
     ''  xbslink-ng listen --port 31415 --interface "Ethernet" --xbox-mac 00:50:F2:1A:2B:3C --key "mysecretkey"'',
     '''',
     ''Press Enter at any time to see current statistics.'',
     '''']\<close>

text \<open>Standard output and exit status of \<^verbatim>\<open>interfaces\<close>.\<close>

definition runInterfaces :: "string \<Rightarrow> ('i, 'h) pcap \<Rightarrow> string \<times> nat" where
  "runInterfaces goos p =
     (if CheckNpcapInstalled goos p \<noteq> None then ([], 1)
      else case ListInterfaces goos p of
        Inl e \<Rightarrow> ([], 1)
      | Inr interfaces \<Rightarrow>
          if interfaces = []
          then (help_lines [''No network interfaces found.'', [], NpcapInstallHelp goos, []], 1)
          else (FormatInterfaceList interfaces, 0))"

text \<open>What the process does: print and exit, or run the bridge.\<close>

datatype action = Output string nat | RunBridge run_args

definition exit_or_run :: "nat + run_args \<Rightarrow> action" where
  "exit_or_run r = (case r of Inl status \<Rightarrow> Output [] status | Inr a \<Rightarrow> RunBridge a)"

definition main :: "string \<Rightarrow> string \<Rightarrow> string \<Rightarrow> ('i, 'h) pcap \<Rightarrow> string list \<Rightarrow> action" where
  "main version goos goarch p os_Args =
     (case os_Args of
        prog # cmd # args \<Rightarrow>
          if cmd = ''listen'' then exit_or_run (runListen args)
          else if cmd = ''connect'' then exit_or_run (runConnect args)
          else if cmd = ''interfaces'' then (case runInterfaces goos p of (out, status) \<Rightarrow> Output out status)
          else if cmd = ''version'' \<or> cmd = ''--version'' \<or> cmd = ''-v'' then
            Output (''xbslink-ng '' @ version @ '' ('' @ goos @ ''/'' @ goarch @ '')'' @ [newline]) 0
          else if cmd = ''help'' \<or> cmd = ''--help'' \<or> cmd = ''-h'' then Output usage 0
          else Output usage 1
      | _ \<Rightarrow> Output usage 1)"

section \<open>Numbers on the command line\<close>

lemma digit_char_facts:
  assumes "d < 10"
  shows "uint_digit (digit_char d) = Some d" and "digit_char d \<noteq> CHR ''_''" and "digit_char d = CHR ''0'' \<longleftrightarrow> d = 0"
proof -
  have c: "(of_char (digit_char d) :: nat) = 48 + d" using assms by (simp add: digit_char_def)
  then show "uint_digit (digit_char d) = Some d" using assms by (simp add: uint_digit_def)
  have "(of_char (digit_char d) :: nat) \<noteq> of_char (CHR ''_'')" using c assms by simp
  then show "digit_char d \<noteq> CHR ''_''" by auto
  have "(of_char (digit_char d) :: nat) = of_char (CHR ''0'') \<longleftrightarrow> d = 0" using c by simp
  then show "digit_char d = CHR ''0'' \<longleftrightarrow> d = 0" by (metis of_char_eq_iff)
qed

lemma uint_value_append:
  "uint_value b (s @ t) n = Option.bind (uint_value b s n) (uint_value b t)"
  by (induction b s n rule: uint_value.induct) (auto split: option.splits)

lemma uint_value_fmt_d: "uint_value 10 (fmt_d n) 0 = Some n"
proof (induction n rule: less_induct)
  case (less n)
  show ?case
  proof (cases "n < 10")
    case True
    then show ?thesis by (simp add: fmt_d_def digits.simps digit_char_facts)
  next
    case False
    then have "fmt_d n = fmt_d (n div 10) @ [digit_char (n mod 10)]"
      unfolding fmt_d_def by (subst digits.simps) simp
    moreover have "uint_value 10 (fmt_d (n div 10)) 0 = Some (n div 10)" using less [of "n div 10"] False by simp
    ultimately show ?thesis by (simp add: uint_value_append digit_char_facts)
  qed
qed

lemma fmt_d_hd: "0 < n \<Longrightarrow> \<exists>c s. fmt_d n = c # s \<and> c \<noteq> CHR ''0''"
proof (induction n rule: less_induct)
  case (less n)
  show ?case
  proof (cases "n < 10")
    case True
    then show ?thesis using less.prems digit_char_facts(3) by (auto simp: fmt_d_def digits.simps)
  next
    case False
    then have "fmt_d n = fmt_d (n div 10) @ [digit_char (n mod 10)]"
      unfolding fmt_d_def by (subst digits.simps) simp
    then show ?thesis using less.IH [of "n div 10"] False by fastforce
  qed
qed

lemma ParseUint_fmt_d:
  assumes "n < 2 ^ 64"
  shows "ParseUint (fmt_d n) = Some n"
proof (cases "n = 0")
  case True
  then have "fmt_d n = ''0''" by (simp add: fmt_d_def digits.simps digit_char_facts(3))
  then show ?thesis using True by (simp add: ParseUint_def uint_base_def)
next
  case False
  then obtain c s where "fmt_d n = c # s" "c \<noteq> CHR ''0''" using fmt_d_hd by blast
  moreover have "CHR ''_'' \<notin> set (fmt_d n)"
    using digits_less [of 10 _ n] digit_char_facts(2) by (fastforce simp: fmt_d_def)
  ultimately show ?thesis using assms uint_value_fmt_d [of n] by (simp add: ParseUint_def uint_base_def)
qed

lemma flag_tokens:
  "flag_token ''--port'' = Flag ''port'' None" "flag_token ''--interface'' = Flag ''interface'' None"
  "flag_token ''--xbox-mac'' = Flag ''xbox-mac'' None" "flag_token ''--key'' = Flag ''key'' None"
  "flag_token ''--log'' = Flag ''log'' None" "flag_token ''--stats-interval'' = Flag ''stats-interval'' None"
  "flag_token ''--events-output'' = Flag ''events-output'' None" "flag_token ''--address'' = Flag ''address'' None"
  by code_simp+

text \<open>A flag followed by its value.\<close>

lemma parse_flag_value:
  "flag_token s = Flag name None \<Longrightarrow> vs name = Some old \<Longrightarrow> set_value old v = Some new \<Longrightarrow>
   parse_flags vs (s # v # rest) = parse_flags (vs(name \<mapsto> new)) rest"
  by simp

lemma set_values:
  "set_value (StringFlag t) v = Some (StringFlag v)"
  "n < 2 ^ 64 \<Longrightarrow> set_value (UintFlag m) (fmt_d n) = Some (UintFlag n)"
  by (simp_all add: set_value_def ParseUint_fmt_d)

text \<open>A command line that names every flag, from the values to be given.\<close>

definition flag_line :: "nat \<Rightarrow> nat \<Rightarrow> run_args \<Rightarrow> string list" where
  "flag_line port stats a =
     [''--port'', fmt_d port, ''--interface'', ra_ifaceName a, ''--xbox-mac'', ra_xboxMACStr a,
      ''--key'', ra_key a, ''--log'', ra_logLevelStr a, ''--stats-interval'', fmt_d stats,
      ''--events-output'', ra_eventsOutput a]"

text \<open>
  C30. What is given on the command line is what the bridge runs with: for arbitrary strings (also
  ones that look like flags) and arbitrary 64-bit numbers, \<^verbatim>\<open>listen\<close> with every flag given starts the
  bridge with exactly these values when an interface is named and the port is between 1 and 65535,
  and exits with status 1 otherwise; \<^verbatim>\<open>connect\<close> needs an interface and an address with a colon, and
  takes its local port modulo 65536. The interval becomes a duration by a 64-bit multiplication.
\<close>

theorem command_line_roundtrip:
  assumes "port < 2 ^ 64" and "stats < 2 ^ 64"
  shows "runListen (flag_line port stats a) =
       (if ra_ifaceName a = [] \<or> port = 0 \<or> 65535 < port then Inl 1
        else Inr (a\<lparr>ra_mode := ModeListen, ra_port := word_of_nat port, ra_peerAddr := [],
                    ra_statsInterval := word_of_nat stats * 1000000000\<rparr>)) \<and>
     runConnect (''--address'' # ra_peerAddr a # flag_line port stats a) =
       (if ra_peerAddr a = [] \<or> ra_ifaceName a = [] \<or> \<not> Contains (ra_peerAddr a) '':'' then Inl 1
        else Inr (a\<lparr>ra_mode := ModeConnect, ra_port := word_of_nat (port mod 65536),
                    ra_statsInterval := word_of_nat stats * 1000000000\<rparr>))"
proof -
  have "(word_of_nat (port mod 65536) :: uint16) = word_of_nat port"
    by (simp add: word_of_nat_eq_iff take_bit_eq_mod)
  then show ?thesis
    using assms
    by (simp add: runListen_def runConnect_def flag_line_def listen_flags_def connect_flags_def
        parse_flag_value [OF flag_tokens(1)] parse_flag_value [OF flag_tokens(2)] parse_flag_value [OF flag_tokens(3)]
        parse_flag_value [OF flag_tokens(4)] parse_flag_value [OF flag_tokens(5)] parse_flag_value [OF flag_tokens(6)]
        parse_flag_value [OF flag_tokens(7)] parse_flag_value [OF flag_tokens(8)]
        set_values string_flag_def uint_flag_def bridge_args_def del: parse_flags.simps(2))
qed

theorem command_line_roundtrip_witness:
  "runListen (flag_line 31415 30 \<lparr>ra_mode = ModeListen, ra_port = 0, ra_peerAddr = [], ra_ifaceName = ''eth0'',
       ra_xboxMACStr = [], ra_key = ''--key'', ra_logLevelStr = ''info'', ra_statsInterval = 0, ra_eventsOutput = []\<rparr>) =
   Inr \<lparr>ra_mode = ModeListen, ra_port = 31415, ra_peerAddr = [], ra_ifaceName = ''eth0'', ra_xboxMACStr = [],
     ra_key = ''--key'', ra_logLevelStr = ''info'', ra_statsInterval = 30000000000, ra_eventsOutput = []\<rparr>"
  using command_line_roundtrip [of 31415 30 "\<lparr>ra_mode = ModeListen, ra_port = 0, ra_peerAddr = [], ra_ifaceName = ''eth0'',
       ra_xboxMACStr = [], ra_key = ''--key'', ra_logLevelStr = ''info'', ra_statsInterval = 0, ra_eventsOutput = []\<rparr>"]
  by simp

end
