(* ===== verification/Main_Loop.thy ===== *)
theory Main_Loop
  imports Bridge_Shutdown Config_Store Discovery Logging Command_Line
begin

text \<open>
  The program around the bridge (second half of \<^verbatim>\<open>cmd/xbslink-ng/main.go\<close>): the start-up of
  \<^verbatim>\<open>runBridge\<close> with its choice of the console's address, the two discovery helpers, and the loop that
  runs one bridge per connection. A left result is the exit status of the process.
\<close>

section \<open>Start-up\<close>

datatype sink = Stdout | Stderr | EventFile string

datatype Emitter = NopEmitter | AsyncEmitter sink AsyncJSONLineWriter

text \<open>
  \<^verbatim>\<open>createEmitter\<close>: whether the file exists, and whether opening it (for appending, creating it when
  it does not exist) succeeds. Every sink can be closed.
\<close>

definition createEmitter :: "(string \<Rightarrow> bool) \<Rightarrow> (string \<Rightarrow> bool \<Rightarrow> bool) \<Rightarrow> string \<Rightarrow> string + Emitter" where
  "createEmitter file_exists open_ok out =
     (if out = [] then Inr NopEmitter
      else if out = ''stdout'' then Inr (AsyncEmitter Stdout (NewAsyncJSONLineWriter True))
      else if out = ''stderr'' then Inr (AsyncEmitter Stderr (NewAsyncJSONLineWriter True))
      else if open_ok out (\<not> file_exists out) then Inr (AsyncEmitter (EventFile out) (NewAsyncJSONLineWriter True))
      else Inl out)"

text \<open>The machine the program starts on.\<close>

record ('i, 'h) machine =
  m_goos :: string
  m_pcap :: "('i, 'h) pcap"
  m_home :: "string option"
  m_read :: read_fault
  m_fs :: fs
  m_exists :: "string \<Rightarrow> bool"
  m_open :: "string \<Rightarrow> bool \<Rightarrow> bool"

text \<open>The key as bytes; an unusable configuration counts as an empty one.\<close>

definition key_bytes :: "string \<Rightarrow> bytes" where
  "key_bytes k = map (\<lambda>c. of_char c) k"

definition load_config :: "('i, 'h) machine \<Rightarrow> StoredConfig" where
  "load_config m = (case Load (m_home m) (m_read m) (m_fs m) of Inl e \<Rightarrow> empty_config | Inr c \<Rightarrow> c)"

text \<open>The flag, the saved address, or none yet: then discovery is needed.\<close>

definition choose_mac :: "string \<Rightarrow> StoredConfig \<Rightarrow> capture_error + HardwareAddr option" where
  "choose_mac xboxMACStr cfg =
     (if xboxMACStr \<noteq> [] then
        (case ParseMAC xboxMACStr of Inl e \<Rightarrow> Inl e | Inr mac \<Rightarrow> Inr (Some mac))
      else Inr (GetXboxMAC cfg))"

definition open_capture :: "('i, 'h) machine \<Rightarrow> string \<Rightarrow> HardwareAddr \<Rightarrow> capture_error + 'h Capture" where
  "open_capture m ifaceName mac =
     fst (Capture_New (m_goos m) (m_pcap m)
       \<lparr>cap_Interface = ifaceName, cap_XboxMAC = mac, cap_Logger = True\<rparr>)"

record 'h started =
  st_level :: Level
  st_emitter :: Emitter
  st_config :: StoredConfig
  st_codec :: Codec
  st_mac :: "HardwareAddr option"
  st_cap :: "'h Capture option"
  st_emitted :: "(EventType \<times> event_data) list"

definition runBridge_start :: "('i, 'h) machine \<Rightarrow> run_args \<Rightarrow> nat + 'h started" where
  "runBridge_start m a =
     (case ParseLevel (ra_logLevelStr a) of
        (lv, Some e) \<Rightarrow> Inl 1
      | (lv, None) \<Rightarrow>
          (case createEmitter (m_exists m) (m_open m) (ra_eventsOutput a) of
             Inl e \<Rightarrow> Inl 1
           | Inr em \<Rightarrow>
               if m_goos m = ''windows'' \<and> CheckNpcapInstalled (m_goos m) (m_pcap m) \<noteq> None then Inl 1
               else
                 let cfg = load_config m in
                 case choose_mac (ra_xboxMACStr a) cfg of
                   Inl e \<Rightarrow> Inl 1
                 | Inr mac \<Rightarrow>
                     (case FindInterface (m_goos m) (m_pcap m) (ra_ifaceName a) of
                        Inl e \<Rightarrow> Inl 1
                      | Inr iface \<Rightarrow>
                          (let st = \<lparr>st_level = lv, st_emitter = em, st_config = cfg,
                                     st_codec = NewCodec (if ra_key a = [] then [] else key_bytes (ra_key a)),
                                     st_mac = mac, st_cap = None, st_emitted = []\<rparr> in
                           case mac of
                             None \<Rightarrow> Inr st
                           | Some hw \<Rightarrow>
                               (case open_capture m (ra_ifaceName a) hw of
                                  Inl e \<Rightarrow> Inl 1
                                | Inr c \<Rightarrow> Inr (st\<lparr>st_cap := Some c\<rparr>))))))"

section \<open>Discovery\<close>

text \<open>
  \<^verbatim>\<open>runForegroundDiscovery\<close>: \<^const>\<open>None\<close> while it listens, then nil or the address, with the event
  it emits. \<^verbatim>\<open>Discover\<close> never panics, so every end without an address is an error.
\<close>

definition runForegroundDiscovery ::
    "('i, 'h) machine \<Rightarrow> string \<Rightarrow> disc_obs list \<Rightarrow>
     (HardwareAddr option \<times> (EventType \<times> event_data) list) option" where
  "runForegroundDiscovery m ifaceName obs =
     (case fst (Discover (m_pcap m) ifaceName obs) of
        None \<Rightarrow> None
      | Some (Ret r) \<Rightarrow>
          Some (Some (MAC r), [(EventDiscovery, DiscoveryData (HardwareAddr_String (MAC r)))])
      | Some e \<Rightarrow> Some (None, []))"

text \<open>
  Remembering a discovered address: the configuration is changed and saved; a failed save is only
  logged.
\<close>

definition save_mac ::
    "bool \<Rightarrow> write_fault \<Rightarrow> ('i, 'h) machine \<Rightarrow> HardwareAddr \<Rightarrow> StoredConfig \<Rightarrow> ('i, 'h) machine \<times> StoredConfig \<times> bool" where
  "save_mac mkdir_ok flt m mac cfg =
     (let cfg1 = SetXboxMAC mac cfg in
      case Save (m_home m) mkdir_ok flt (m_fs m) cfg1 of (f, e) \<Rightarrow> (m\<lparr>m_fs := f\<rparr>, cfg1, e = None))"

text \<open>Connect mode without an address: discovery, save, capture, each failure but the save fatal.\<close>

definition runBridge_discover ::
    "bool \<Rightarrow> write_fault \<Rightarrow> disc_obs list \<Rightarrow> ('i, 'h) machine \<Rightarrow> run_args \<Rightarrow> 'h started \<Rightarrow>
     (nat + ('i, 'h) machine \<times> 'h started) option" where
  "runBridge_discover mkdir_ok flt obs m a st =
     (if st_mac st \<noteq> None \<or> ra_mode a \<noteq> ModeConnect then Some (Inr (m, st))
      else case runForegroundDiscovery m (ra_ifaceName a) obs of
        None \<Rightarrow> None
      | Some (None, es) \<Rightarrow> Some (Inl 1)
      | Some (Some mac, es) \<Rightarrow>
          (case save_mac mkdir_ok flt m mac (st_config st) of
             (m1, cfg1, saved) \<Rightarrow>
               (case open_capture m1 (ra_ifaceName a) mac of
                  Inl e \<Rightarrow> Some (Inl 1)
                | Inr c \<Rightarrow> Some (Inr (m1, st\<lparr>st_config := cfg1, st_mac := Some mac, st_cap := Some c,
                                          st_emitted := st_emitted st @ es\<rparr>)))))"

text \<open>
  \<^verbatim>\<open>runBackgroundDiscovery\<close> once discovery has returned: the machine, the configuration, what becomes
  of the bridge, and a capture that could not be set and was closed again.
\<close>

definition runBackgroundDiscovery ::
    "bool \<Rightarrow> write_fault \<Rightarrow> disc_obs list \<Rightarrow> ('i, 'h) machine \<Rightarrow> string \<Rightarrow> StoredConfig \<Rightarrow> 'h Bridge \<Rightarrow>
     (('i, 'h) machine \<times> StoredConfig \<times> (unit, 'h Bridge) outcome \<times> 'h Capture option) option" where
  "runBackgroundDiscovery mkdir_ok flt obs m ifaceName cfg br =
     (case fst (Discover (m_pcap m) ifaceName obs) of
        None \<Rightarrow> None
      | Some (Ret r) \<Rightarrow>
          (let mac = MAC r;
               br1 = emit EventDiscovery (DiscoveryData (HardwareAddr_String mac)) br
           in case save_mac mkdir_ok flt m mac cfg of
             (m1, cfg1, saved) \<Rightarrow>
               (case open_capture m1 ifaceName mac of
                  Inl e \<Rightarrow> Some (m1, cfg1, Ret br1, None)
                | Inr cap \<Rightarrow>
                    (case SetCapture (Some cap) br1 of
                       Ret br2 \<Rightarrow> Some (m1, cfg1, Ret br2, None)
                     | Err e \<Rightarrow> Some (m1, cfg1, Ret br1, Some (fst (Capture_Close cap)))
                     | Panic \<Rightarrow> Some (m1, cfg1, Panic, None))))
      | Some e \<Rightarrow> Some (m, cfg, Ret br, None))"

section \<open>The connection loop\<close>

text \<open>The delay before a reconnection, in nanoseconds; attempts count from zero.\<close>

definition getBackoffDelay :: "nat \<Rightarrow> int" where
  "getBackoffDelay attempt =
     (let backoffs = [1 * 1000000000, 2 * 1000000000, 5 * 1000000000, 10 * 1000000000] in
      if attempt < length backoffs then backoffs ! attempt else 10 * 1000000000)"

text \<open>
  \<^verbatim>\<open>Run\<close> as its caller sees it: from a bridge to a bridge, a result, and whether the context given to
  it was cancelled when it returned.
\<close>

inductive Run_result :: "'h pcap_io \<Rightarrow> 'h Bridge \<Rightarrow> bool \<Rightarrow> 'h Bridge \<Rightarrow> run_error option \<Rightarrow> bool" for io where
  NotConnected: "Run_connect env b = (b1, Some (Some r)) \<Longrightarrow> Run_result io b (e_ctx_err env) b1 r"
| Connected: "Run_connect env b = (b1, Some None) \<Longrightarrow> (run_step io)\<^sup>*\<^sup>* (Run_start ctx b1) s \<Longrightarrow>
    mainPc s = Returned r \<Longrightarrow> Run_result io b (ctxDone s) (bridge s) r"

text \<open>
  What the loop keeps between connections. The codec and the capture are objects shared with the
  bridge; the transport is the one of the last connection.
\<close>

record 'h loop_state =
  lp_attempt :: nat
  lp_codec :: Codec
  lp_cap :: "'h Capture option"
  lp_trans :: "Transport option"
  lp_delays :: "int list"

datatype 'h loop_end = Again "'h loop_state" | Finished "'h loop_state" | Fatal "'h loop_state" nat

definition close_cap :: "'h loop_state \<Rightarrow> 'h loop_state" where
  "close_cap lp = lp\<lparr>lp_cap := map_option (\<lambda>c. fst (Capture_Close c)) (lp_cap lp)\<rparr>"

definition bridge_config :: "run_args \<Rightarrow> Transport \<Rightarrow> 'h loop_state \<Rightarrow> 'h BridgeConfig" where
  "bridge_config a t lp =
     \<lparr>bc_Capture = lp_cap lp, bc_Transport = Some t, bc_Codec = Some (lp_codec lp), bc_Logger = True,
      bc_Mode = ra_mode a, bc_StatsInterval = ra_statsInterval a\<rparr>"

text \<open>
  What follows a return of \<^verbatim>\<open>Run\<close>: the application's context, the result, and for a reconnection in
  connect mode whether the context is cancelled during the delay.
\<close>

definition after_run :: "run_args \<Rightarrow> bool \<Rightarrow> bool \<Rightarrow> 'h Bridge \<Rightarrow> run_error option \<Rightarrow> 'h loop_state \<Rightarrow> 'h loop_end" where
  "after_run a app app_in_backoff b r lp0 =
     (let lp = lp0\<lparr>lp_codec := b_codec b, lp_trans := Some (Close (b_transport b)),
                   lp_cap := (case lp_cap lp0 of None \<Rightarrow> None | Some c \<Rightarrow> b_capture b)\<rparr> in
      if app then Finished (close_cap lp)
      else if r = Some ErrPeerDisconnected then
        (let lp1 = lp\<lparr>lp_codec := ResetRecvNonce (lp_codec lp)\<rparr> in
         if ra_mode a = ModeConnect then
           (let lp2 = lp1\<lparr>lp_delays := lp_delays lp @ [getBackoffDelay (lp_attempt lp)]\<rparr> in
            if app_in_backoff then Finished (close_cap lp2) else Again (lp2\<lparr>lp_attempt := lp_attempt lp + 1\<rparr>))
         else Again (lp1\<lparr>lp_attempt := lp_attempt lp + 1\<rparr>))
      else case r of
        Some e \<Rightarrow> Fatal (close_cap lp) 1
      | None \<Rightarrow> Finished (close_cap lp))"

text \<open>
  One round of the loop. The context of a connection is cancelled before \<^verbatim>\<open>Run\<close> returns only when the
  application's context is, and that stays cancelled.
\<close>

definition transport_config :: "run_args \<Rightarrow> 'h loop_state \<Rightarrow> Config" where
  "transport_config a lp =
     \<lparr>cfgMode = ra_mode a, LocalPort = ra_port a, cfgPeerAddr = ra_peerAddr a,
      cfgCodec = Some (lp_codec lp), cfgLogger = True\<rparr>"

inductive loop_round :: "'h pcap_io \<Rightarrow> net_env \<Rightarrow> run_args \<Rightarrow> 'h loop_state \<Rightarrow> 'h loop_end \<Rightarrow> bool" for io net a where
  AppDone: "loop_round io net a lp (Finished (close_cap lp))"
| NoTransport: "New net (transport_config a lp) = Inl e \<Longrightarrow> loop_round io net a lp (Fatal (close_cap lp) 1)"
| NoBridge: "New net (transport_config a lp) = Inr t \<Longrightarrow> Bridge_New (bridge_config a t lp) = Inl e \<Longrightarrow>
    loop_round io net a lp (Fatal (close_cap (lp\<lparr>lp_trans := Some (Close t)\<rparr>)) 1)"
| RunOnce: "New net (transport_config a lp) = Inr t \<Longrightarrow> Bridge_New (bridge_config a t lp) = Inr b \<Longrightarrow>
    Run_result io b cancelled b1 r \<Longrightarrow> (cancelled \<longrightarrow> app) \<Longrightarrow>
    loop_round io net a lp (after_run a app app_in_backoff b1 r lp)"

text \<open>The loop, and \<^verbatim>\<open>runBridge\<close> as a whole.\<close>

inductive connection_loop :: "'h pcap_io \<Rightarrow> net_env \<Rightarrow> run_args \<Rightarrow> 'h loop_state \<Rightarrow> 'h loop_end \<Rightarrow> bool" for io net a where
  Stop: "loop_round io net a lp e \<Longrightarrow> (\<And>lp1. e \<noteq> Again lp1) \<Longrightarrow> connection_loop io net a lp e"
| Repeat: "loop_round io net a lp (Again lp1) \<Longrightarrow> connection_loop io net a lp1 e \<Longrightarrow> connection_loop io net a lp e"

definition first_round :: "'h started \<Rightarrow> 'h loop_state" where
  "first_round st = \<lparr>lp_attempt = 0, lp_codec = st_codec st, lp_cap = st_cap st, lp_trans = None, lp_delays = []\<rparr>"

text \<open>
  How the process ends: its status, whether the deferred close of the event emitter has run
  (\<^verbatim>\<open>os.Exit\<close> skips it), and what the loop leaves, if it was reached.
\<close>

record 'h process_end =
  pe_status :: nat
  pe_emitter_closed :: bool
  pe_loop :: "'h loop_state option"

inductive runBridge :: "'h pcap_io \<Rightarrow> net_env \<Rightarrow> ('i, 'h) machine \<Rightarrow> run_args \<Rightarrow> 'h process_end \<Rightarrow> bool" for io net m a where
  StartFails: "runBridge_start m a = Inl n \<Longrightarrow>
    runBridge io net m a \<lparr>pe_status = n, pe_emitter_closed = False, pe_loop = None\<rparr>"
| DiscoveryFails: "runBridge_start m a = Inr st \<Longrightarrow> runBridge_discover mkdir_ok flt obs m a st = Some (Inl n) \<Longrightarrow>
    runBridge io net m a \<lparr>pe_status = n, pe_emitter_closed = False, pe_loop = None\<rparr>"
| LoopReturns: "runBridge_start m a = Inr st \<Longrightarrow> runBridge_discover mkdir_ok flt obs m a st = Some (Inr (m1, st1)) \<Longrightarrow>
    connection_loop io net a (first_round st1) (Finished lp) \<Longrightarrow>
    runBridge io net m a \<lparr>pe_status = 0, pe_emitter_closed = True, pe_loop = Some lp\<rparr>"
| LoopExits: "runBridge_start m a = Inr st \<Longrightarrow> runBridge_discover mkdir_ok flt obs m a st = Some (Inr (m1, st1)) \<Longrightarrow>
    connection_loop io net a (first_round st1) (Fatal lp n) \<Longrightarrow>
    runBridge io net m a \<lparr>pe_status = n, pe_emitter_closed = False, pe_loop = Some lp\<rparr>"

section \<open>Properties\<close>

lemma getBackoffDelay_eq: "getBackoffDelay n = backoffDelay n"
proof -
  consider "n = 0" | "n = 1" | "n = 2" | "n = 3" | "4 \<le> n" by linarith
  then show ?thesis by cases (simp_all add: getBackoffDelay_def backoffDelay_def connectBackoff_def)
qed

lemma Run_connect_no_disconnect:
  "Run_connect env b = (b1, Some (Some r)) \<Longrightarrow> r \<noteq> Some ErrPeerDisconnected"
  by (auto simp: Run_connect_def Let_def split: prod.splits option.splits if_splits)

text \<open>A disconnection is reported only under a cancelled context.\<close>

lemma Run_result_disconnect:
  assumes "Run_result io b cancelled b1 (Some ErrPeerDisconnected)" and "bridge_ok b"
  shows "cancelled"
  using assms(1)
proof cases
  case (NotConnected env)
  then show ?thesis using Run_connect_no_disconnect by blast
next
  case (Connected env b0 ctx s)
  have "bridge_ok b0" using Run_connect_ok [OF assms(2), of env] Connected(3) by simp
  then have "run_ok (b_capture b0 \<noteq> None) s" using run_reachable_ok Connected(4) by blast
  then show ?thesis using Connected(1,5) by (simp add: run_ok_def main_ok_def Let_def)
qed

lemma close_cap_fields [simp]:
  "lp_trans (close_cap lp) = lp_trans lp" "lp_attempt (close_cap lp) = lp_attempt lp"
  "lp_delays (close_cap lp) = lp_delays lp"
  by (simp_all add: close_cap_def)

text \<open>Nothing is left open: the capture of the loop and the transport of its last connection.\<close>

definition released :: "'h loop_state \<Rightarrow> bool" where
  "released lp \<longleftrightarrow> (\<forall>c. lp_cap lp = Some c \<longrightarrow> handle c = None) \<and> (\<forall>t. lp_trans lp = Some t \<longrightarrow> closed t)"

lemma released_close_cap: "released (close_cap lp) \<longleftrightarrow> (\<forall>t. lp_trans lp = Some t \<longrightarrow> closed t)"
  by (auto simp: released_def close_cap_def Capture_Close_handle)

lemma closed_Close_transport: "closed (Close t)"
  by (simp add: Close_def)

text \<open>
  A round of the connection loop never starts another: \<^verbatim>\<open>Run\<close> reports a disconnected peer only after
  the application itself was cancelled. What the round opened is closed when it ends.
\<close>

lemma loop_never_reconnects:
  assumes "loop_round io net a lp e" and "lp_trans lp = None"
  shows "\<exists>lp1. (e = Finished lp1 \<or> e = Fatal lp1 1) \<and> released lp1 \<and>
     lp_attempt lp1 = lp_attempt lp \<and> lp_delays lp1 = lp_delays lp"
  using assms(1)
proof cases
  case (RunOnce t b cancelled b1 r app app_in_backoff)
  have "bridge_ok b"
    by (rule Bridge_New_ok [OF RunOnce(3)]) (use New_ok [OF RunOnce(2)] in \<open>simp add: bridge_config_def\<close>)
  then have "app" if "r = Some ErrPeerDisconnected"
    using Run_result_disconnect RunOnce(4,5) that by blast
  then show ?thesis unfolding RunOnce(1)
    by (auto simp: after_run_def Let_def released_close_cap closed_Close_transport split: option.splits)
qed (use assms(2) in \<open>auto simp: released_close_cap closed_Close_transport\<close>)

lemma connection_loop_ends:
  "connection_loop io net a lp e \<Longrightarrow> lp_trans lp = None \<Longrightarrow>
   \<exists>lp1. (e = Finished lp1 \<or> e = Fatal lp1 1) \<and> released lp1 \<and> lp_attempt lp1 = lp_attempt lp \<and> lp_delays lp1 = lp_delays lp"
  by (induction rule: connection_loop.induct) (use loop_never_reconnects in fastforce)+

lemma exit_status:
  "runBridge_start m a = Inl n \<Longrightarrow> n = 1"
  "runBridge_discover mkdir_ok flt obs m a st = Some (Inl n) \<Longrightarrow> n = 1"
  by (auto simp: runBridge_start_def runBridge_discover_def Let_def
      split: prod.splits option.splits sum.splits if_splits)


lemma ParseLevel_error:
  "(\<exists>lv e. ParseLevel s = (lv, Some e)) \<longleftrightarrow>
   ToLower (TrimSpace s) \<notin> {''error'', ''warn'', ''warning'', ''info'', ''debug'', ''trace''}"
  by (auto simp: ParseLevel_def Let_def)

lemma createEmitter_error:
  "(\<exists>e. createEmitter file_exists open_ok out = Inl e) \<longleftrightarrow>
   out \<notin> {[], ''stdout'', ''stderr''} \<and> \<not> open_ok out (\<not> file_exists out)"
  by (auto simp: createEmitter_def)

lemma choose_mac_error:
  "(\<exists>e. choose_mac flag cfg = Inl e) \<longleftrightarrow> flag \<noteq> [] \<and> (\<exists>e. ParseMAC flag = Inl e)"
  by (auto simp: choose_mac_def split: sum.splits)

text \<open>
  C31. Start-up fails, always with status 1, exactly when the log level is none of the six accepted
  words (up to case and surrounding space), the events go to a file that cannot be opened, Npcap is
  missing on Windows, the address flag is given and is no MAC address, no interface matches, or a
  known address has no capture: the flag's or the saved one, when it has not six bytes or the
  capture library refuses it.
\<close>

theorem startup_errors:
  "runBridge_start m a = Inl n \<longleftrightarrow>
     n = 1 \<and>
     (ToLower (TrimSpace (ra_logLevelStr a)) \<notin> {''error'', ''warn'', ''warning'', ''info'', ''debug'', ''trace''} \<or>
      ra_eventsOutput a \<notin> {[], ''stdout'', ''stderr''} \<and> \<not> m_open m (ra_eventsOutput a) (\<not> m_exists m (ra_eventsOutput a)) \<or>
      m_goos m = ''windows'' \<and> CheckNpcapInstalled (m_goos m) (m_pcap m) \<noteq> None \<or>
      ra_xboxMACStr a \<noteq> [] \<and> (\<exists>e. ParseMAC (ra_xboxMACStr a) = Inl e) \<or>
      (\<exists>e. FindInterface (m_goos m) (m_pcap m) (ra_ifaceName a) = Inl e) \<or>
      (\<exists>mac e. choose_mac (ra_xboxMACStr a) (load_config m) = Inr (Some mac) \<and> open_capture m (ra_ifaceName a) mac = Inl e))"
  unfolding ParseLevel_error [symmetric] createEmitter_error [symmetric] choose_mac_error [where cfg = "load_config m", symmetric]
  by (auto simp: runBridge_start_def Let_def split: prod.splits option.splits sum.splits if_splits)

text \<open>Background discovery leaves no open capture behind that no bridge owns.\<close>

lemma background_discovery_ok:
  assumes "runBackgroundDiscovery mkdir_ok flt obs m iface cfg br = Some (m1, cfg1, Ret br1, left)" and "bridge_ok br"
  shows "bridge_ok br1" and "left = Some c \<Longrightarrow> handle c = None \<and> b_capture br1 = b_capture br \<and> b_capture br \<noteq> None"
proof -
  have "b_capture (emit t d b) = b_capture b" for t d and b :: "'b Bridge" by (simp add: emit_def)
  then show "bridge_ok br1" "left = Some c \<Longrightarrow> handle c = None \<and> b_capture br1 = b_capture br \<and> b_capture br \<noteq> None"
    using assms
    by (auto simp: runBackgroundDiscovery_def SetCapture_def bridge_ok_emit Let_def
        split: option.splits outcome.splits prod.splits sum.splits if_splits)
qed


lemma Discover_loop_mac:
  "snd (script_loop Discover_iter obs ()) = Some (Ret r) \<Longrightarrow> length (MAC r) = 6"
  by (induction obs) (auto simp: Discover_iter_eq from_console_def frame_source_def split: if_splits sum.splits)

lemma Discover_mac: "fst (Discover p i obs) = Some (Ret r) \<Longrightarrow> length (MAC r) = 6"
  by (auto simp: Discover_def Let_def Discover_loop_mac split: sum.splits option.splits)


section \<open>Instances\<close>

definition sample_machine :: "(unit, unit) machine" where
  "sample_machine =
     \<lparr>m_goos = ''linux'', m_pcap = sample_pcap, m_home = Some ''/home/u'', m_read = ReadWorks, m_fs = Map.empty,
      m_exists = (\<lambda>f. False), m_open = (\<lambda>f c. True)\<rparr>"

definition sample_args :: "string \<Rightarrow> run_args" where
  "sample_args mac =
     \<lparr>ra_mode = ModeListen, ra_port = 31415, ra_peerAddr = [], ra_ifaceName = ''lo'', ra_xboxMACStr = mac,
      ra_key = ''k'', ra_logLevelStr = ''info'', ra_statsInterval = 0, ra_eventsOutput = []\<rparr>"

definition sample_mac :: HardwareAddr where
  "sample_mac = [0, 80, 242, 1, 2, 3]"

lemma sample_lookup: "\<exists>i. FindInterface ''linux'' sample_pcap ''lo'' = Inr i"
  by (simp add: FindInterface_def sample_pcap_list) (simp add: sample_pcap_def interface_info_def)

lemma sample_capture: "\<exists>c. open_capture sample_machine ''lo'' sample_mac = Inr c"
  by (simp add: open_capture_def sample_machine_def Capture_New_def CheckNpcapInstalled_def FindInterface_def
      ListInterfaces_def sample_pcap_def interface_info_def configure_def Let_def sample_mac_def)

lemma sample_start: "\<exists>st. runBridge_start sample_machine (sample_args (HardwareAddr_String sample_mac)) = Inr st"
proof -
  have level: "ParseLevel ''info'' = (LevelInfo, None)" by code_simp
  have mac: "ParseMAC (HardwareAddr_String sample_mac) = Inr sample_mac" "HardwareAddr_String sample_mac \<noteq> []"
    using ParseMAC_roundtrip [of sample_mac] by (simp_all add: sample_mac_def HardwareAddr_String_def fmt_02x_def)
  obtain i c where "FindInterface ''linux'' sample_pcap ''lo'' = Inr i" "open_capture sample_machine ''lo'' sample_mac = Inr c"
    using sample_lookup sample_capture by blast
  then show ?thesis
    by (simp add: runBridge_start_def sample_args_def level createEmitter_def choose_mac_def mac Let_def)
      (simp add: sample_machine_def)
qed


theorem startup_errors_witness:
  "runBridge_start sample_machine ((sample_args [])\<lparr>ra_logLevelStr := ''loud''\<rparr>) = Inl 1"
proof -
  have "ToLower (TrimSpace ''loud'') = ''loud''" by code_simp
  then show ?thesis
    using startup_errors [of sample_machine "(sample_args [])\<lparr>ra_logLevelStr := ''loud''\<rparr>" 1] by simp
qed


lemma setState_mode: "b_mode (setState st b) = b_mode b"
  by (simp add: setState_def emit_def Let_def)

definition sample_net :: net_env where
  "sample_net = \<lparr>bind_ok = (\<lambda>p. True), resolve = (\<lambda>s. None)\<rparr>"

text \<open>A round in which the context is cancelled while the listener waits for its peer.\<close>

lemma sample_round:
  fixes lp :: "unit loop_state"
  shows "\<exists>lp1. loop_round sample_io sample_net (sample_args mac) lp (Finished lp1)"
proof -
  let ?t = "\<lparr>conn = Some new_UDPConn, peerAddr = None, mode = ModeListen, challenge = [], connected = False, closed = False\<rparr>"
  let ?env = "\<lparr>e_wait = [\<lparr>w_done = True, w_read = ReadTimeoutErr, w_write = True\<rparr>], e_connect = [], e_ctx_err = True\<rparr>"
  have t: "New sample_net (transport_config (sample_args mac) lp) = Inr ?t"
    by (simp add: New_def setupListen_def sample_args_def sample_net_def transport_config_def Let_def)
  obtain b where b: "Bridge_New (bridge_config (sample_args mac) ?t lp) = Inr b"
    and fields: "b_mode b = ModeListen" "b_transport b = ?t"
    by (simp add: Bridge_New_def bridge_config_def sample_args_def)
  obtain b1 where b1: "Run_connect ?env b = (b1, Some (Some None))"
    using fields by (simp add: Run_connect_def Run_handshake_def WaitForPeer_def WaitForPeer_iter.simps setState_mode Let_def)
  have "loop_round sample_io sample_net (sample_args mac) lp (after_run (sample_args mac) True False b1 None lp)"
    using RunOnce [OF t b NotConnected [OF b1], of True] by simp
  then show ?thesis by (auto simp: after_run_def)
qed


end
