(* ===== verification/Tunnel.thy ===== *)
theory Tunnel
  imports Bridge_Traffic "HOL-Library.Sublist"
begin

text \<open>
  Two bridges as one system: what the loops of the sending bridge put on the wire, a network that
  may lose any datagram, and the loops of the receiving bridge. In one direction the two bridges
  refine a lossy first-in-first-out link between the two local networks.
\<close>

section \<open>The link as it is meant\<close>

record link =
  accepted :: "bytes list"
  pending :: "bytes list"
  arrived :: "bytes list"

inductive link_step :: "link \<Rightarrow> link \<Rightarrow> bool" where
  Accept: "link_step l (l\<lparr>accepted := accepted l @ [f], pending := pending l @ [f]\<rparr>)"
| Lose: "pending l = xs @ f # ys \<Longrightarrow> link_step l (l\<lparr>pending := xs @ ys\<rparr>)"
| Arrive: "pending l = f # fs \<Longrightarrow> link_step l (l\<lparr>pending := fs, arrived := arrived l @ [f]\<rparr>)"

text \<open>Nothing is invented, duplicated or reordered.\<close>

definition link_fifo :: "link \<Rightarrow> bool" where
  "link_fifo l \<longleftrightarrow> subseq (arrived l @ pending l) (accepted l)"

interpretation link: transition_invariant link_fifo link_step link_fifo
proof
  show "link_fifo t" if "link_fifo s" "link_step s t" for s t
    using that(2)
  proof cases
    case (Accept f)
    then show ?thesis using that(1) by (simp add: link_fifo_def) (metis append_assoc list_emb_append_mono subseq_order.order_refl)
  next
    case (Lose xs f ys)
    have "subseq (arrived s @ xs @ ys) (arrived s @ xs @ f # ys)" by (simp add: subseq_append' list_emb_Cons)
    then show ?thesis using that(1) Lose by (auto simp: link_fifo_def dest: subseq_order.order_trans)
  qed (use that(1) in \<open>simp add: link_fifo_def\<close>)
qed simp

section \<open>Two bridges and a wire\<close>

record 'h tunnel =
  src :: "'h Bridge"
  wire :: "bytes list"
  dst :: "'h Bridge"
  captured :: "bytes list"

definition fresh_sent :: "'h Bridge \<Rightarrow> 'h Bridge \<Rightarrow> bytes list" where
  "fresh_sent a a' = map fst (drop (length (sent a)) (sent a'))"

definition nonce_room :: "Codec \<Rightarrow> bool" where
  "nonce_room c \<longleftrightarrow> (secureMode c \<longrightarrow> unat (sendNonce c) + 1 < 2 ^ 64)"

text \<open>
  The loops of the sending bridge take a step each (its receive loop answers pings and so also
  sends), with nonces left; the network loses a datagram; the receiving bridge reads the oldest
  datagram and then lets its inject loop run. Writes may fail.
\<close>

inductive tunnel_step ::
    "('h option \<Rightarrow> bytes \<Rightarrow> (capture_error, unit) outcome) \<Rightarrow> UDPAddr \<Rightarrow> 'h tunnel \<Rightarrow> 'h tunnel \<Rightarrow> bool" for wr peer where
  Captured: "captureLoop_iter False rd (src s) = Running a \<Longrightarrow>
    tunnel_step wr peer s (s\<lparr>src := a,
      captured := captured s @ drop (length (chan_buf (framesToSend (src s)))) (chan_buf (framesToSend a))\<rparr>)"
| Sent: "nonce_room (b_codec (src s)) \<Longrightarrow> sendLoop_iter False ok (src s) = Running a \<Longrightarrow>
    tunnel_step wr peer s (s\<lparr>src := a, wire := wire s @ fresh_sent (src s) a\<rparr>)"
| Pinged: "nonce_room (b_codec (src s)) \<Longrightarrow> sendPing now ok (src s) = Ret a \<Longrightarrow>
    tunnel_step wr peer s (s\<lparr>src := a, wire := wire s @ fresh_sent (src s) a\<rparr>)"
| Answered: "nonce_room (b_codec (src s)) \<Longrightarrow> recvLoop_iter False q ob (src s) = Running a \<Longrightarrow>
    tunnel_step wr peer s (s\<lparr>src := a, wire := wire s @ fresh_sent (src s) a\<rparr>)"
| Lost: "wire s = xs @ d # ys \<Longrightarrow> tunnel_step wr peer s (s\<lparr>wire := xs @ ys\<rparr>)"
| Delivered: "wire s = d # ds \<Longrightarrow> recvLoop_iter False (Some peer) (from_peer peer d now) (dst s) = Running b1 \<Longrightarrow>
    injectLoop_iter False wr b1 = Running b2 \<Longrightarrow> tunnel_step wr peer s (s\<lparr>wire := ds, dst := b2\<rparr>)"

text \<open>The frames a datagram carries for a receiver with this key, whatever its replay window.\<close>

definition frame_in :: "Codec \<Rightarrow> bytes \<Rightarrow> bytes list" where
  "frame_in c d =
     (case snd (Decode (c\<lparr>sendNonce := 0, recvNonce := 0\<rparr>) d) of
        Ret msg \<Rightarrow> if msgType msg = MsgFrame then [Frame msg] else []
      | _ \<Rightarrow> [])"

definition tunnel_link :: "'h tunnel \<Rightarrow> link" where
  "tunnel_link s =
     \<lparr>accepted = filter legal_frame (captured s),
      pending = concat (map (frame_in (b_codec (dst s))) (wire s)) @ filter legal_frame (chan_buf (framesToSend (src s))),
      arrived = b_injected (dst s)\<rparr>"

section \<open>The wire\<close>

definition datagram :: "Codec \<Rightarrow> byte \<Rightarrow> uint64 \<Rightarrow> bytes \<Rightarrow> bytes" where
  "datagram c t n p = snd (encode (c\<lparr>sendNonce := n - 1\<rparr>) t p)"

definition payload_ok :: "byte \<Rightarrow> bytes \<Rightarrow> bool" where
  "payload_ok t p \<longleftrightarrow> t = MsgFrame \<and> legal_frame p \<or> (\<exists>ts. (t = MsgPing \<or> t = MsgPong) \<and> p = PutUint64 ts)"

text \<open>Datagrams under the key of \<open>c\<close> with increasing nonces, above \<open>lo\<close> and up to \<open>hi\<close>.\<close>

fun wire_ok :: "Codec \<Rightarrow> uint64 \<Rightarrow> uint64 \<Rightarrow> bytes list \<Rightarrow> bool" where
  "wire_ok c lo hi [] \<longleftrightarrow> (secureMode c \<longrightarrow> lo \<le> hi)"
| "wire_ok c lo hi (d # ds) \<longleftrightarrow>
     (\<exists>t n p. d = datagram c t n p \<and> payload_ok t p \<and> (secureMode c \<longrightarrow> lo < n) \<and> wire_ok c n hi ds)"

lemma datagram_cong: "paired c c' \<Longrightarrow> datagram c t n p = datagram c' t n p"
  by (cases "secureMode c") (simp_all add: datagram_def paired_def encode_secure encode_insecure)

lemma wire_ok_cong: "paired c c' \<Longrightarrow> wire_ok c lo hi ds = wire_ok c' lo hi ds"
  by (induction ds arbitrary: lo) (simp_all add: paired_def datagram_cong [of c c'])

lemma wire_ok_lower: "wire_ok c lo hi ds \<Longrightarrow> (secureMode c \<longrightarrow> lo' \<le> lo) \<Longrightarrow> wire_ok c lo' hi ds"
  by (cases ds) (auto intro: order_trans le_less_trans)

lemma wire_ok_lose: "wire_ok c lo hi (xs @ d # ys) \<Longrightarrow> wire_ok c lo hi (xs @ ys)"
proof (induction xs arbitrary: lo)
  case Nil
  then show ?case by (auto intro: wire_ok_lower less_imp_le)
next
  case (Cons x xs)
  then show ?case unfolding append_Cons wire_ok.simps by blast
qed

lemma wire_ok_snoc:
  "wire_ok c lo hi ds \<Longrightarrow> payload_ok t p \<Longrightarrow> (secureMode c \<longrightarrow> hi < n) \<Longrightarrow> wire_ok c lo n (ds @ [datagram c t n p])"
  by (induction ds arbitrary: lo) (auto intro: le_less_trans)

lemma wire_ok_raise: "wire_ok c lo hi ds \<Longrightarrow> (secureMode c \<longrightarrow> hi \<le> hi') \<Longrightarrow> wire_ok c lo hi' ds"
  by (induction ds arbitrary: lo) (auto intro: order_trans)

lemma Decode_datagram:
  assumes "paired c d" and "secureMode c \<Longrightarrow> recvNonce d < n" and "payload_ok t p"
  shows "\<exists>msg. Decode d (datagram c t n p) = (after_accept (c\<lparr>sendNonce := n - 1\<rparr>) t d, Ret msg) \<and> msgType msg = t \<and>
     (t = MsgFrame \<longrightarrow> Frame msg = p)"
proof -
  have "paired (c\<lparr>sendNonce := n - 1\<rparr>) d" "window_open (c\<lparr>sendNonce := n - 1\<rparr>) d"
    using assms(1,2) by (auto simp: paired_def window_open_def)
  then have "Decode d (datagram c t n p) = (after_accept (c\<lparr>sendNonce := n - 1\<rparr>) t d, parsePayload t p)"
    unfolding datagram_def by (intro Decode_encode) auto
  moreover have "\<exists>msg. parsePayload t p = Ret msg \<and> msgType msg = t \<and> (t = MsgFrame \<longrightarrow> Frame msg = p)"
    using assms(3) parsePayload_frame [of p] parsePayload_ping
    by (auto simp: payload_ok_def legal_frame_def new_Message_def)
  ultimately show ?thesis by auto
qed

lemma frame_in_datagram:
  assumes "paired c d" and "secureMode c \<Longrightarrow> 0 < n" and "payload_ok t p"
  shows "frame_in d (datagram c t n p) = (if t = MsgFrame then [p] else [])"
proof -
  have "paired c (d\<lparr>sendNonce := 0, recvNonce := 0\<rparr>)" using assms(1) by (simp add: paired_def)
  then show ?thesis using Decode_datagram [of c "d\<lparr>sendNonce := 0, recvNonce := 0\<rparr>" n t p] assms(2,3)
    by (auto simp: frame_in_def)
qed

lemma frame_in_cong: "paired d d' \<Longrightarrow> frame_in d = frame_in d'"
  unfolding frame_in_def paired_def by (cases d; cases d') simp

section \<open>What the sending bridge puts on the wire\<close>

text \<open>
  A step of the sending bridge that encodes nothing, or one message that is then written or not.
\<close>

definition says :: "'h Bridge \<Rightarrow> (byte \<times> bytes) option \<Rightarrow> 'h Bridge \<Rightarrow> bool" where
  "says a m a' \<longleftrightarrow> link_up (b_transport a') \<and> paired (b_codec a) (b_codec a') \<and>
     (case m of
        None \<Rightarrow> sendNonce (b_codec a') = sendNonce (b_codec a) \<and> sent a' = sent a
      | Some (t, p) \<Rightarrow> payload_ok t p \<and>
          sendNonce (b_codec a') = sendNonce (fst (encode (b_codec a) t p)) \<and>
          (sent a' = sent a \<or> (\<exists>to. sent a' = sent a @ [(snd (encode (b_codec a) t p), to)])))"

lemma sendMsg_any:
  assumes "link_up (b_transport b)"
  shows "\<exists>t. fst (sendMsg ok m b) = b\<lparr>b_transport := t\<rparr> \<and> link_up t \<and>
     (sent (b\<lparr>b_transport := t\<rparr>) = sent b \<or> (\<exists>to. sent (b\<lparr>b_transport := t\<rparr>) = sent b @ [(m, to)]))"
proof (cases ok)
  case True
  then show ?thesis using sendMsg_up [OF assms, of m] by auto
next
  case False
  then have "fst (sendMsg ok m b) = b"
    using assms by (auto simp: sendMsg_def Send_def WriteToUDP_def link_up_def conn_open_def split: option.splits)
  then show ?thesis using assms by (intro exI [of _ "b_transport b"]) simp
qed

lemma says_send:
  assumes "link_up (b_transport a)" and "encode (b_codec a) t p = (c, m)" and "payload_ok t p"
  shows "says a (Some (t, p)) (fst (sendMsg ok m (a\<lparr>b_codec := c\<rparr>)))"
proof -
  obtain tr where tr: "fst (sendMsg ok m (a\<lparr>b_codec := c\<rparr>)) = a\<lparr>b_codec := c, b_transport := tr\<rparr>" "link_up tr"
    "sent (a\<lparr>b_codec := c, b_transport := tr\<rparr>) = sent (a\<lparr>b_codec := c\<rparr>) \<or>
      (\<exists>to. sent (a\<lparr>b_codec := c, b_transport := tr\<rparr>) = sent (a\<lparr>b_codec := c\<rparr>) @ [(m, to)])"
    using sendMsg_any [of "a\<lparr>b_codec := c\<rparr>" ok m] assms(1) by auto
  moreover have "sent (a\<lparr>b_codec := c\<rparr>) = sent a" by (simp add: sent_def)
  moreover have "paired (b_codec a) c" using encode_keeps [of "b_codec a" t p] assms(2) by (simp add: paired_def)
  ultimately show ?thesis using assms(2,3) by (simp add: says_def)
qed

lemma says_None:
  "link_up (b_transport a) \<Longrightarrow> b_transport a' = b_transport a \<Longrightarrow> psk (b_codec a') = psk (b_codec a) \<Longrightarrow>
   secureMode (b_codec a') = secureMode (b_codec a) \<Longrightarrow> sendNonce (b_codec a') = sendNonce (b_codec a) \<Longrightarrow> says a None a'"
  by (simp add: says_def sent_def paired_def)

text \<open>The send loop: one frame of the queue, dropped when it has no legal size.\<close>

lemma sendLoop_says:
  assumes "link_up (b_transport a)" and "sendLoop_iter False ok a = Running a'"
  shows "a' = a \<or>
     (\<exists>f fs. chan_buf (framesToSend a) = f # fs \<and> chan_buf (framesToSend a') = fs \<and>
        (if legal_frame f then says a (Some (MsgFrame, f)) a' else says a None a'))"
proof (cases "chan_buf (framesToSend a)")
  case Nil
  then show ?thesis using assms(2) by (simp add: sendLoop_iter_def chan_recv_def)
next
  case (Cons f fs)
  let ?a = "a\<lparr>framesToSend := (framesToSend a)\<lparr>chan_buf := fs\<rparr>\<rparr>"
  show ?thesis
  proof (cases "legal_frame f")
    case True
    obtain c m where enc: "encode (b_codec a) MsgFrame f = (c, m)" by fastforce
    have "sendLoop_encode f ?a = (?a\<lparr>b_codec := c\<rparr>, Some m)"
      using True enc by (simp add: sendLoop_encode_def EncodeFrame_def legal_frame_def)
    then have a': "a' = sendLoop_send ok m (length f) (?a\<lparr>b_codec := c\<rparr>)"
      using assms(2) Cons by (simp add: sendLoop_iter_def chan_recv_def)
    have "says ?a (Some (MsgFrame, f)) (fst (sendMsg ok m (?a\<lparr>b_codec := c\<rparr>)))"
      by (rule says_send) (use assms(1) enc True in \<open>simp_all add: payload_ok_def del: MsgFrame_def\<close>)
    then have "says a (Some (MsgFrame, f)) a'"
      by (simp add: a' sendLoop_send_def says_def sent_def Let_def case_prod_beta split: bool.splits)
    moreover have "chan_buf (framesToSend a') = fs"
      by (simp add: a' sendLoop_send_def sendMsg_def Let_def case_prod_beta split: bool.splits)
    ultimately show ?thesis using Cons True by auto
  next
    case False
    then have "a' = ?a" using assms(2) Cons
      by (auto simp: sendLoop_iter_def chan_recv_def sendLoop_encode_def EncodeFrame_def legal_frame_def split: if_splits)
    then show ?thesis using Cons False assms(1) by (auto intro: says_None)
  qed
qed

text \<open>The ping and receive loops leave the queue alone and send at most one control message.\<close>

definition utters :: "'h Bridge \<Rightarrow> 'h Bridge \<Rightarrow> bool" where
  "utters a a' \<longleftrightarrow> framesToSend a' = framesToSend a \<and> (\<exists>m. says a m a' \<and> (\<forall>t p. m = Some (t, p) \<longrightarrow> t \<noteq> MsgFrame))"

lemma uttersI:
  "framesToSend a' = framesToSend a \<Longrightarrow> says a None a' \<Longrightarrow> utters a a'"
  "framesToSend a' = framesToSend a \<Longrightarrow> says a (Some (t, p)) a' \<Longrightarrow> t \<noteq> MsgFrame \<Longrightarrow> utters a a'"
  by (auto simp: utters_def)

lemma framesToSend_calls [simp]:
  "framesToSend (fst (sendMsg ok m b)) = framesToSend b" "framesToSend (setState st b) = framesToSend b"
  "framesToSend (emit t d b) = framesToSend b"
  by (simp_all add: sendMsg_def setState_def emit_def Let_def case_prod_beta)

lemma says_before:
  "says a0 m a' \<Longrightarrow> b_transport a0 = b_transport a \<Longrightarrow> paired (b_codec a0) (b_codec a) \<Longrightarrow>
   sendNonce (b_codec a0) = sendNonce (b_codec a) \<Longrightarrow> says a m a'"
proof -
  assume a: "says a0 m a'" "b_transport a0 = b_transport a" "paired (b_codec a0) (b_codec a)"
    "sendNonce (b_codec a0) = sendNonce (b_codec a)"
  have "snd (encode (b_codec a0) t p) = snd (encode (b_codec a) t p)"
    "sendNonce (fst (encode (b_codec a0) t p)) = sendNonce (fst (encode (b_codec a) t p))" for t p
    using a(3,4) by (cases "secureMode (b_codec a)"; simp add: paired_def encode_secure encode_insecure)+
  then show ?thesis using a by (auto simp: says_def sent_def paired_def split: option.splits)
qed

lemma sendPing_utters:
  assumes "link_up (b_transport a)" and "sendPing now ok a = Ret a'"
  shows "utters a a'"
proof -
  obtain b1 r where lock: "sendPing_lock now a = Ret (b1, r)"
    using assms(2) by (auto simp: sendPing_def split: outcome.splits)
  have same: "b_transport b1 = b_transport a" "b_codec b1 = b_codec a" "framesToSend b1 = framesToSend a"
    using lock by (auto simp: sendPing_lock_def Let_def closeDoneOnce_def setState_def emit_def split: if_splits)
  show ?thesis
  proof (cases r)
    case None
    then have "a' = b1" using assms(2) lock by (simp add: sendPing_def)
    then show ?thesis using same assms(1) by (intro uttersI(1) says_None) simp_all
  next
    case (Some ts)
    obtain c m where enc: "encode (b_codec b1) MsgPing (PutUint64 ts) = (c, m)" by fastforce
    then have a': "a' = fst (sendMsg ok m (b1\<lparr>b_codec := c\<rparr>))"
      using assms(2) lock Some by (simp add: sendPing_def encodePing_def EncodePing_def del: MsgPing_def)
    have "says b1 (Some (MsgPing, PutUint64 ts)) a'" unfolding a'
      by (rule says_send [OF _ enc]) (use same assms(1) in \<open>auto simp: payload_ok_def\<close>)
    then have "says a (Some (MsgPing, PutUint64 ts)) a'"
      by (rule says_before) (simp_all add: same paired_def)
    then show ?thesis by (rule uttersI(2) [rotated]) (simp_all add: a' same)
  qed
qed

lemma handlePing_utters:
  assumes "link_up (b_transport a)"
  shows "utters a (handlePing ok ts a)"
proof -
  obtain c m where enc: "encode (b_codec a) MsgPong (PutUint64 ts) = (c, m)" by fastforce
  then have "handlePing ok ts a = fst (sendMsg ok m (a\<lparr>b_codec := c\<rparr>))"
    by (simp add: handlePing_def encodePong_def EncodePong_def del: MsgPong_def)
  moreover have "says a (Some (MsgPong, PutUint64 ts)) (fst (sendMsg ok m (a\<lparr>b_codec := c\<rparr>)))"
    by (rule says_send [OF assms enc]) (auto simp: payload_ok_def)
  ultimately show ?thesis using uttersI(2) [of "handlePing ok ts a" a MsgPong "PutUint64 ts"] by simp
qed

lemma dispatch_utters:
  assumes "link_up (b_transport a)" and "dispatch ob ref msg a = Ret a'"
  shows "utters a a'"
proof -
  have quiet: "utters a b" if "b_transport b = b_transport a" "b_codec b = b_codec a" "framesToSend b = framesToSend a" for b
    using that assms(1) by (intro uttersI(1) says_None) simp_all
  have "utters a (handlePong n ts a)" for n ts
    by (rule quiet) (simp_all add: handlePong_def emit_def Let_def)
  moreover have "utters a (handleFrame ref a)" by (rule quiet) (simp_all add: handleFrame_def Let_def)
  moreover have "utters a a'" if "handleBye a = Ret a'"
    by (rule quiet) (use that in \<open>auto simp: handleBye_def closeDoneOnce_def setState_def emit_def Let_def split: if_splits\<close>)
  moreover have "utters a a" by (rule quiet) simp_all
  ultimately show ?thesis using assms(2) handlePing_utters [OF assms(1)]
    by (auto simp: dispatch_def split: if_splits)
qed

lemma decoded_utters:
  assumes "link_up (b_transport a)" and "Decode (b_codec a) data = (c, r)"
  shows "utters a (a\<lparr>recvBuf := buf, b_codec := c\<rparr>)"
    and "dispatch ob ref msg (a\<lparr>recvBuf := buf, b_codec := c\<rparr>) = Ret a' \<Longrightarrow> utters a a'"
proof -
  have dec: "paired (b_codec a) c" "sendNonce c = sendNonce (b_codec a)"
    using fst_Decode [of "b_codec a" data] assms(2) by (simp_all add: paired_def)
  then show "utters a (a\<lparr>recvBuf := buf, b_codec := c\<rparr>)"
    using assms(1) by (intro uttersI(1) says_None) (simp_all add: paired_def)
  assume "dispatch ob ref msg (a\<lparr>recvBuf := buf, b_codec := c\<rparr>) = Ret a'"
  then have "utters (a\<lparr>recvBuf := buf, b_codec := c\<rparr>) a'" by (rule dispatch_utters [rotated]) (simp add: assms(1))
  then show "utters a a'" using says_before [of "a\<lparr>recvBuf := buf, b_codec := c\<rparr>" _ a' a] dec
    by (auto simp: utters_def paired_def)
qed

lemma recvLoop_utters:
  assumes "link_up (b_transport a)" and "recvLoop_iter False q ob a = Running a'"
  shows "utters a a'"
proof -
  have "utters a (a\<lparr>recvBuf := buf\<rparr>)" for buf using assms(1) by (intro uttersI(1) says_None) simp_all
  moreover from this [of "recvBuf a"] have "utters a a" by simp
  ultimately show ?thesis using assms(2)
    by (auto simp: recvLoop_iter_def recvLoop_decode_def Let_def
        split: recv_result.splits if_splits prod.splits outcome.splits
        intro: decoded_utters [OF assms(1)])
qed

section \<open>What the receiving bridge makes of the wire\<close>

lemma length_datagram: "length (datagram c t n (PutUint64 ts)) \<le> recvBufSize"
  by (cases "secureMode c") (simp_all add: datagram_def encode_secure encode_insecure length_sealed recvBufSize_def)

lemma after_accept_fields:
  "paired d (after_accept c t d)"
  "payload_ok t p \<Longrightarrow> secureMode d \<Longrightarrow> recvNonce (after_accept (c\<lparr>sendNonce := n - 1\<rparr>) t d) = n"
  by (auto simp: after_accept_def paired_def payload_ok_def is_handshake_def)

text \<open>Answering a ping or taking a pong touches nothing on the path of a frame.\<close>

definition quiet :: "'h Bridge \<Rightarrow> 'h Bridge \<Rightarrow> bool" where
  "quiet b b' \<longleftrightarrow> framesToInject b' = framesToInject b \<and> b_capture b' = b_capture b \<and> b_injected b' = b_injected b \<and>
     paired (b_codec b) (b_codec b') \<and> recvNonce (b_codec b') = recvNonce (b_codec b) \<and> link_up (b_transport b')"

lemma handlePing_quiet:
  assumes "link_up (b_transport b)"
  shows "quiet b (handlePing ok ts b)"
proof -
  obtain c m where enc: "encode (b_codec b) MsgPong (PutUint64 ts) = (c, m)" by fastforce
  obtain tr where "fst (sendMsg ok m (b\<lparr>b_codec := c\<rparr>)) = b\<lparr>b_codec := c, b_transport := tr\<rparr>" "link_up tr"
    using sendMsg_any [of "b\<lparr>b_codec := c\<rparr>" ok m] assms by auto
  then show ?thesis using enc encode_keeps [of "b_codec b" MsgPong "PutUint64 ts"]
    by (simp add: quiet_def handlePing_def encodePong_def EncodePong_def paired_def del: MsgPong_def)
qed

lemma handlePong_quiet: "link_up (b_transport b) \<Longrightarrow> quiet b (handlePong now ts b)"
  by (simp add: quiet_def handlePong_def emit_def Let_def paired_def)

lemma receive_control:
  assumes "inject_ready wr b" and "paired c (b_codec b)" and "secureMode c \<Longrightarrow> recvNonce (b_codec b) < n"
    and "payload_ok t p" and "t \<noteq> MsgFrame"
  shows "\<exists>b'. recvLoop_iter False (Some peer) (from_peer peer (datagram c t n p) now) b = Running b' \<and>
     injectLoop_iter False wr b' = Running b' \<and> inject_ready wr b' \<and> paired (b_codec b) (b_codec b') \<and>
     (secureMode c \<longrightarrow> recvNonce (b_codec b') = n) \<and> b_injected b' = b_injected b"
proof -
  let ?d = "datagram c t n p" and ?c = "after_accept (c\<lparr>sendNonce := n - 1\<rparr>) t (b_codec b)"
  obtain msg where msg: "Decode (b_codec b) ?d = (?c, Ret msg)" "msgType msg = t"
    using Decode_datagram [OF assms(2,3,4)] by auto
  define b0 where "b0 = b\<lparr>recvBuf := fill_buf ?d (recvBuf b), b_codec := ?c\<rparr>"
  have up: "link_up (b_transport b)" using assms(1) by (simp add: inject_ready_def)
  have len: "length ?d \<le> recvBufSize" using assms(4,5) length_datagram by (auto simp: payload_ok_def)
  have c: "paired (b_codec b) ?c" "secureMode c \<Longrightarrow> recvNonce ?c = n"
    using after_accept_fields assms(2,4) by (auto simp: paired_def)
  have ready: "inject_ready wr b0" using assms(1) by (simp add: inject_ready_def b0_def)
  define b' where "b' = (if t = MsgPing then handlePing True (Timestamp msg) b0 else handlePong now (Timestamp msg) b0)"
  have "dispatch (from_peer peer ?d now) (payload_ref (b_codec b) ?d) msg b0 = Ret b'"
    using msg(2) assms(4,5) by (auto simp: dispatch_def b'_def payload_ok_def)
  then have recv: "recvLoop_iter False (Some peer) (from_peer peer ?d now) b = Running b'"
    using recvLoop_receives [OF up _ len _ msg(1), of "from_peer peer ?d now" peer peer] by (simp add: b0_def)
  have "link_up (b_transport b0)" using up by (simp add: b0_def)
  then have "quiet b0 b'" unfolding b'_def using handlePing_quiet handlePong_quiet by auto
  note keep = this [unfolded quiet_def]
  have "inject_ready wr b'" using ready keep by (simp add: inject_ready_def)
  moreover from this have "injectLoop_iter False wr b' = Running b'"
    by (simp add: inject_ready_def injectLoop_iter_def chan_recv_def)
  ultimately show ?thesis using recv keep c by (intro exI [of _ b']) (auto simp: b0_def paired_def)
qed

lemma receive_datagram:
  assumes "inject_ready wr b" and "paired c (b_codec b)" and "secureMode c \<Longrightarrow> recvNonce (b_codec b) < n"
    and "payload_ok t p"
  shows "\<exists>b1 b'. recvLoop_iter False (Some peer) (from_peer peer (datagram c t n p) now) b = Running b1 \<and>
     injectLoop_iter False wr b1 = Running b' \<and> inject_ready wr b' \<and> paired (b_codec b) (b_codec b') \<and>
     (secureMode c \<longrightarrow> recvNonce (b_codec b') = n) \<and>
     b_injected b' = b_injected b @ frame_in (b_codec b) (datagram c t n p)"
proof -
  have "secureMode c \<Longrightarrow> 0 < n" using assms(3) by (auto simp: word_gt_0)
  note frames = frame_in_datagram [OF assms(2) this assms(4)]
  show ?thesis
  proof (cases "t = MsgFrame")
    case True
    let ?c = "c\<lparr>sendNonce := n - 1\<rparr>"
    have "legal_frame p" using assms(4) True by (auto simp: payload_ok_def)
    moreover have "paired ?c (b_codec b)" "window_open ?c (b_codec b)"
      using assms(2,3) by (auto simp: paired_def window_open_def)
    ultimately obtain b1 b' where "recvLoop_iter False (Some peer) (from_peer peer (datagram c t n p) now) b = Running b1"
      "injectLoop_iter False wr b1 = Running b'" "inject_ready wr b'" "b_codec b' = after_accept ?c t (b_codec b)"
      "b_injected b' = b_injected b @ [p]"
      using receive_inject_iter [OF assms(1), of ?c p peer now] True unfolding datagram_def by blast
    then show ?thesis using after_accept_fields assms(2,4) frames True by (auto simp: paired_def)
  next
    case False
    then show ?thesis using receive_control [OF assms False, of peer now] frames by fastforce
  qed
qed

section \<open>The refinement\<close>

definition tunnel_ok :: "('h option \<Rightarrow> bytes \<Rightarrow> (capture_error, unit) outcome) \<Rightarrow> 'h tunnel \<Rightarrow> bool" where
  "tunnel_ok wr s \<longleftrightarrow> link_up (b_transport (src s)) \<and> inject_ready wr (dst s) \<and>
     paired (b_codec (src s)) (b_codec (dst s)) \<and>
     wire_ok (b_codec (src s)) (recvNonce (b_codec (dst s))) (sendNonce (b_codec (src s))) (wire s)"

lemma says_wire:
  assumes "tunnel_ok wr s" and "nonce_room (b_codec (src s))" and "says (src s) m a"
  shows "tunnel_ok wr (s\<lparr>src := a, wire := wire s @ fresh_sent (src s) a\<rparr>)"
    and "concat (map (frame_in (b_codec (dst s))) (fresh_sent (src s) a)) =
       (case m of Some (t, p) \<Rightarrow> if t = MsgFrame \<and> sent a \<noteq> sent (src s) then [p] else [] | None \<Rightarrow> [])"
proof -
  let ?c = "b_codec (src s)" and ?n = "sendNonce (b_codec (src s)) + 1"
  have pair: "paired ?c (b_codec (dst s))" and pa: "paired ?c (b_codec a)" and up: "link_up (b_transport a)"
    and w: "wire_ok ?c (recvNonce (b_codec (dst s))) (sendNonce ?c) (wire s)"
    using assms(1,3) by (auto simp: tunnel_ok_def says_def)
  have step: "0 < ?n" "sendNonce ?c < ?n" if "secureMode ?c"
    using that assms(2) nonce_step(1) [of "sendNonce ?c"] by (auto simp: nonce_room_def)
  have enc: "snd (encode ?c t p) = datagram ?c t ?n p" for t p by (simp add: datagram_def)
  have ok: "tunnel_ok wr (s\<lparr>src := a, wire := ds\<rparr>)"
    if "wire_ok ?c (recvNonce (b_codec (dst s))) (sendNonce (b_codec a)) ds" for ds
    using that assms(1) up pa wire_ok_cong [OF pa] by (auto simp: tunnel_ok_def paired_def)
  have nonce: "sendNonce (fst (encode ?c t p)) = (if secureMode ?c then ?n else sendNonce ?c)" for t p
    by (simp add: encode_secure encode_insecure)
  have new: "frame_in (b_codec (dst s)) (datagram ?c t ?n p) = (if t = MsgFrame then [p] else [])" if "payload_ok t p" for t p
    using frame_in_datagram [OF pair step(1) that] by simp
  show "tunnel_ok wr (s\<lparr>src := a, wire := wire s @ fresh_sent (src s) a\<rparr>)"
  proof (rule ok, cases m)
    case None
    then show "wire_ok ?c (recvNonce (b_codec (dst s))) (sendNonce (b_codec a)) (wire s @ fresh_sent (src s) a)"
      using assms(3) w by (simp add: says_def fresh_sent_def)
  next
    case (Some x)
    obtain t p where x: "x = (t, p)" by fastforce
    have "wire_ok ?c (recvNonce (b_codec (dst s))) (if secureMode ?c then ?n else sendNonce ?c) (wire s @ [datagram ?c t ?n p])"
      if "payload_ok t p"
      using wire_ok_snoc [OF w that, of ?n] wire_ok_raise step(2) by (cases "secureMode ?c") auto
    moreover have "wire_ok ?c (recvNonce (b_codec (dst s))) (if secureMode ?c then ?n else sendNonce ?c) (wire s)"
      by (rule wire_ok_raise [OF w]) (use step(2) in auto)
    ultimately show "wire_ok ?c (recvNonce (b_codec (dst s))) (sendNonce (b_codec a)) (wire s @ fresh_sent (src s) a)"
      using assms(3) Some x nonce enc by (auto simp: says_def fresh_sent_def)
  qed
  show "concat (map (frame_in (b_codec (dst s))) (fresh_sent (src s) a)) =
       (case m of Some (t, p) \<Rightarrow> if t = MsgFrame \<and> sent a \<noteq> sent (src s) then [p] else [] | None \<Rightarrow> [])"
    using assms(3) new enc by (auto simp: says_def fresh_sent_def split: option.splits)
qed

lemma utters_step:
  assumes "tunnel_ok wr s" and "nonce_room (b_codec (src s))" and "utters (src s) a"
  defines "t \<equiv> s\<lparr>src := a, wire := wire s @ fresh_sent (src s) a\<rparr>"
  shows "tunnel_ok wr t \<and> tunnel_link t = tunnel_link s"
proof -
  obtain m where m: "says (src s) m a" "\<forall>t p. m = Some (t, p) \<longrightarrow> t \<noteq> MsgFrame" "framesToSend a = framesToSend (src s)"
    using assms(3) by (auto simp: utters_def)
  then show ?thesis using says_wire [OF assms(1,2) m(1)]
    by (auto simp: t_def tunnel_link_def split: option.splits)
qed

lemma sent_step:
  assumes "tunnel_ok wr s" and "nonce_room (b_codec (src s))" and "sendLoop_iter False ok (src s) = Running a"
  defines "t \<equiv> s\<lparr>src := a, wire := wire s @ fresh_sent (src s) a\<rparr>"
  shows "tunnel_ok wr t \<and> (tunnel_link t = tunnel_link s \<or> link_step (tunnel_link s) (tunnel_link t))"
proof -
  have up: "link_up (b_transport (src s))" using assms(1) by (simp add: tunnel_ok_def)
  consider "a = src s" | f fs where "chan_buf (framesToSend (src s)) = f # fs" "chan_buf (framesToSend a) = fs"
    "if legal_frame f then says (src s) (Some (MsgFrame, f)) a else says (src s) None a"
    using sendLoop_says [OF up assms(3)] by blast
  then show ?thesis
  proof cases
    case 1
    then show ?thesis using assms(1) by (simp add: t_def fresh_sent_def)
  next
    case (2 f fs)
    show ?thesis
    proof (cases "legal_frame f")
      case True
      then have say: "says (src s) (Some (MsgFrame, f)) a" using 2(3) by simp
      note w = says_wire [OF assms(1,2) say]
      show ?thesis
      proof (cases "sent a = sent (src s)")
        case same: True
        have "link_step (tunnel_link s) ((tunnel_link s)\<lparr>pending :=
            concat (map (frame_in (b_codec (dst s))) (wire s)) @ filter legal_frame fs\<rparr>)"
          by (rule Lose [where f = f]) (use 2 True in \<open>simp add: tunnel_link_def\<close>)
        moreover have "fresh_sent (src s) a = []" using same by (simp add: fresh_sent_def)
        ultimately show ?thesis using w(1) 2 by (simp add: t_def tunnel_link_def)
      next
        case False
        then show ?thesis using w 2 True by (simp add: t_def tunnel_link_def)
      qed
    next
      case False
      then show ?thesis using says_wire [OF assms(1,2)] 2 by (auto simp: t_def tunnel_link_def)
    qed
  qed
qed

lemma captured_step:
  assumes "tunnel_ok wr s" and "captureLoop_iter False rd (src s) = Running a"
  defines "t \<equiv> s\<lparr>src := a, captured := captured s @ drop (length (chan_buf (framesToSend (src s)))) (chan_buf (framesToSend a))\<rparr>"
  shows "tunnel_ok wr t \<and> (tunnel_link t = tunnel_link s \<or> link_step (tunnel_link s) (tunnel_link t))"
proof -
  consider "a = src s" | f where "a = (src s)\<lparr>framesToSend := fst (chan_try_send f (framesToSend (src s)))\<rparr>"
    using assms(2) by (auto simp: captureLoop_iter_def split: option.splits outcome.splits)
  then show ?thesis
  proof cases
    case 1
    then show ?thesis using assms(1) by (simp add: t_def)
  next
    case (2 f)
    have ok: "tunnel_ok wr t" using assms(1) 2 by (simp add: t_def tunnel_ok_def)
    show ?thesis
    proof (cases "legal_frame f \<and> length (chan_buf (framesToSend (src s))) < chan_cap (framesToSend (src s))")
      case True
      then have "tunnel_link t = (tunnel_link s)\<lparr>accepted := accepted (tunnel_link s) @ [f], pending := pending (tunnel_link s) @ [f]\<rparr>"
        by (simp add: t_def 2 tunnel_link_def chan_try_send_def)
      then show ?thesis using ok Accept by metis
    next
      case False
      then show ?thesis using ok by (auto simp: t_def 2 tunnel_link_def chan_try_send_def)
    qed
  qed
qed

lemma wire_ok_frame:
  assumes "wire_ok c lo hi (xs @ d # ys)" and "paired c e"
  shows "frame_in e d = [] \<or> (\<exists>f. frame_in e d = [f])"
  using assms(1)
proof (induction xs arbitrary: lo)
  case Nil
  then show ?case by (auto simp: frame_in_def split: outcome.splits)
next
  case (Cons x xs)
  then show ?case by auto
qed

lemma lost_step:
  assumes "tunnel_ok wr s" and "wire s = xs @ d # ys"
  defines "t \<equiv> s\<lparr>wire := xs @ ys\<rparr>"
  shows "tunnel_ok wr t \<and> (tunnel_link t = tunnel_link s \<or> link_step (tunnel_link s) (tunnel_link t))"
proof -
  let ?fr = "\<lambda>ds. concat (map (frame_in (b_codec (dst s))) ds)"
  have ok: "tunnel_ok wr t" using assms(1,2) wire_ok_lose by (auto simp: t_def tunnel_ok_def)
  have "frame_in (b_codec (dst s)) d = [] \<or> (\<exists>f. frame_in (b_codec (dst s)) d = [f])"
    using wire_ok_frame assms(1,2) by (metis tunnel_ok_def)
  then show ?thesis
  proof
    assume "frame_in (b_codec (dst s)) d = []"
    then show ?thesis using ok assms(2) by (simp add: t_def tunnel_link_def)
  next
    assume "\<exists>f. frame_in (b_codec (dst s)) d = [f]"
    then obtain f where "frame_in (b_codec (dst s)) d = [f]" by blast
    then have "link_step (tunnel_link s) ((tunnel_link s)\<lparr>pending := ?fr xs @ ?fr ys @ filter legal_frame (chan_buf (framesToSend (src s)))\<rparr>)"
      using assms(2) by (intro Lose [where f = f]) (simp add: tunnel_link_def)
    then show ?thesis using ok by (simp add: t_def tunnel_link_def)
  qed
qed

lemma delivered_step:
  assumes "tunnel_ok wr s" and "wire s = d # ds"
  shows "\<exists>b1 b2. recvLoop_iter False (Some peer) (from_peer peer d now) (dst s) = Running b1 \<and>
     injectLoop_iter False wr b1 = Running b2 \<and> tunnel_ok wr (s\<lparr>wire := ds, dst := b2\<rparr>) \<and>
     (tunnel_link (s\<lparr>wire := ds, dst := b2\<rparr>) = tunnel_link s \<or>
      link_step (tunnel_link s) (tunnel_link (s\<lparr>wire := ds, dst := b2\<rparr>)))"
proof -
  let ?c = "b_codec (src s)" and ?e = "b_codec (dst s)"
  have pair: "paired ?c ?e" using assms(1) by (simp add: tunnel_ok_def)
  obtain t n p where d: "d = datagram ?c t n p" and p: "payload_ok t p" and n: "secureMode ?c \<Longrightarrow> recvNonce ?e < n"
    and w: "wire_ok ?c n (sendNonce ?c) ds"
    using assms by (auto simp: tunnel_ok_def)
  have ready: "inject_ready wr (dst s)" using assms(1) by (simp add: tunnel_ok_def)
  obtain b1 b2 where b: "recvLoop_iter False (Some peer) (from_peer peer d now) (dst s) = Running b1"
    "injectLoop_iter False wr b1 = Running b2" "inject_ready wr b2" "paired ?e (b_codec b2)"
    "secureMode ?c \<longrightarrow> recvNonce (b_codec b2) = n" "b_injected b2 = b_injected (dst s) @ frame_in ?e d"
    using receive_datagram [OF ready pair n p, of peer now] unfolding d by blast
  have "wire_ok ?c (recvNonce (b_codec b2)) (sendNonce ?c) ds" using w b(5) wire_ok_lower by fastforce
  then have ok: "tunnel_ok wr (s\<lparr>wire := ds, dst := b2\<rparr>)" using assms(1) b(3,4) by (auto simp: tunnel_ok_def paired_def)
  have same: "frame_in (b_codec b2) = frame_in ?e" using frame_in_cong b(4) by metis
  have "secureMode ?c \<Longrightarrow> 0 < n" using n by (auto simp: word_gt_0)
  then have fr: "frame_in ?e d = (if t = MsgFrame then [p] else [])" using frame_in_datagram [OF pair _ p] d by simp
  show ?thesis
  proof (cases "t = MsgFrame")
    case True
    have "link_step (tunnel_link s) ((tunnel_link s)\<lparr>pending := concat (map (frame_in ?e) ds) @ filter legal_frame (chan_buf (framesToSend (src s))),
        arrived := arrived (tunnel_link s) @ [p]\<rparr>)"
      by (rule Arrive) (use True fr assms(2) in \<open>simp add: tunnel_link_def\<close>)
    then show ?thesis using ok b(1,2,6) same fr True
      by (intro exI [of _ b1] exI [of _ b2]) (simp add: tunnel_link_def)
  next
    case False
    then show ?thesis using ok b(1,2,6) same fr assms(2)
      by (intro exI [of _ b1] exI [of _ b2]) (simp add: tunnel_link_def)
  qed
qed

lemma tunnel_step_ok:
  assumes "tunnel_ok wr s" and "tunnel_step wr peer s t"
  shows "tunnel_ok wr t \<and> (tunnel_link t = tunnel_link s \<or> link_step (tunnel_link s) (tunnel_link t))"
proof -
  have up: "link_up (b_transport (src s))" using assms(1) by (simp add: tunnel_ok_def)
  from assms(2) show ?thesis
  proof cases
    case (Captured rd a)
    then show ?thesis using captured_step [OF assms(1)] by simp
  next
    case (Sent ok a)
    then show ?thesis using sent_step [OF assms(1)] by simp
  next
    case (Pinged now ok a)
    then show ?thesis using utters_step [OF assms(1)] sendPing_utters [OF up] by simp
  next
    case (Answered q ob a)
    then show ?thesis using utters_step [OF assms(1)] recvLoop_utters [OF up] by simp
  next
    case (Lost xs d ys)
    then show ?thesis using lost_step [OF assms(1)] by simp
  next
    case (Delivered d ds now b1 b2)
    then show ?thesis using delivered_step [OF assms(1), of d ds peer now] by simp
  qed
qed

interpretation tunnel: simulation "tunnel_step wr peer" link_step tunnel_link "tunnel_ok wr" for wr peer
  by unfold_locales (use tunnel_step_ok in blast)+

text \<open>A tunnel at the start of a session.\<close>

definition tunnel_start :: "('h option \<Rightarrow> bytes \<Rightarrow> (capture_error, unit) outcome) \<Rightarrow> 'h tunnel \<Rightarrow> bool" where
  "tunnel_start wr s \<longleftrightarrow> link_up (b_transport (src s)) \<and> inject_ready wr (dst s) \<and>
     link_ok 0 (b_codec (src s)) (b_codec (dst s)) \<and> wire s = [] \<and> captured s = [] \<and>
     chan_buf (framesToSend (src s)) = [] \<and> b_injected (dst s) = []"



end
