(* ===== verification/Spec2Isabelle.thy ===== *)
theory Spec2Isabelle
  imports Main_Loop Tunnel
begin

text \<open>
  xbslink-ng bridges the System Link traffic of two consoles over UDP. This development models the
  program under \<^verbatim>\<open>src/\<close> (Go) as HOL functions and step relations and proves what makes it correct,
  and, where the code does something else than it means to, what it does instead.

  \<^bold>\<open>The program and its parts.\<close> The process (\<^verbatim>\<open>cmd/xbslink-ng/main.go\<close>) reads its command line,
  chooses the console's MAC address (flag, saved configuration, or discovery), opens a capture on a
  network interface and then, in a loop, creates a transport and a bridge and runs the bridge. The
  bridge (\<^verbatim>\<open>internal/bridge\<close>) performs the handshake of the transport (\<^verbatim>\<open>internal/transport\<close>) and
  starts seven goroutines: frames captured (\<^verbatim>\<open>internal/capture\<close>) go through a channel to the codec
  (\<^verbatim>\<open>internal/protocol\<close>) and the socket; datagrams received go through the codec to the handlers,
  and frames among them through a second channel to injection; pings measure the round trip and
  detect a dead peer; statistics are printed. Events (\<^verbatim>\<open>internal/events\<close>) are written as JSON lines,
  log lines (\<^verbatim>\<open>internal/logging\<close>) to the terminal, and the MAC address to a file
  (\<^verbatim>\<open>internal/config\<close>), found by \<^verbatim>\<open>internal/discovery\<close>.

  \<^bold>\<open>How code is modelled.\<close> Structs are records with the source's field names, integers have the
  source's width (\<^verbatim>\<open>uint64\<close> and \<^verbatim>\<open>int64\<close> are 64-bit words, the latter read signed), byte slices are
  lists, and an operation that can fail or panic returns an outcome or a sum. A method returns the
  new state of its receiver. What an operation observes of the world (the result of a read or write,
  the clock, a cancelled context) is an argument; a loop that waits for such observations reads them
  from a list, and the result \<^const>\<open>None\<close> means that it is still waiting. A socket is the list of the
  datagrams written to it and a flag for closed. A frame in the injection queue is a position in the
  receive buffer, because the source queues a slice of that buffer and not a copy.

  \<^bold>\<open>Theories.\<close>

  \<^item> \<^verbatim>\<open>Prelude\<close>: machine types, big-endian numbers, slices with their bounds checks, outcomes,
    buffered channels, loops over observations; the locales \<open>bounded_fifo\<close> (channels),
    \<open>transition_invariant\<close>, \<open>simulation\<close>, \<open>loop_rule\<close> and \<open>loop_invariant\<close>, which the components
    interpret on their own definitions.
  \<^item> \<^verbatim>\<open>Sha256\<close>, \<^verbatim>\<open>GoStd\<close>, \<^verbatim>\<open>Float64\<close>, \<^verbatim>\<open>Json\<close>: what the program uses of Go's standard library, executable:
    SHA-256 and HMAC (with the locale \<open>mac_scheme\<close>), formatting and parsing of numbers, MAC and IP
    addresses, binary64 arithmetic and its shortest decimal form, JSON strings and documents.
  \<^item> \<^verbatim>\<open>Protocol\<close> (\<^verbatim>\<open>protocol.go\<close>): the codec, every encoder, both stages of decoding, the challenge
    response. Shown: a keyed codec accepts exactly the datagrams tagged under its key whose nonce is
    outside the window; a datagram is accepted once; what is sent over a network that loses but does
    not reorder arrives unchanged and in order; decoding never panics; every message round-trips.
  \<^item> \<^verbatim>\<open>Transport\<close> (\<^verbatim>\<open>transport.go\<close>): construction, \<open>WaitForPeer\<close>, \<open>Connect\<close> and \<open>attemptHandshake\<close> with
    their loop bodies, sending, receiving, closing. Shown: the state invariant; that a completed
    handshake proves the peer's key, on both sides; that the listener connects as soon as a HELLO
    arrives; the schedule of the connector; that a new session reopens the replay window.
  \<^item> \<^verbatim>\<open>Capture\<close> and \<^verbatim>\<open>Discovery\<close> (\<^verbatim>\<open>capture.go\<close>, \<^verbatim>\<open>discovery.go\<close>): interface lookup, MAC parsing, opening,
    reading and writing, the discovery loop. The pcap library is a record of functions. Shown: the
    best match is found and both lookups agree; no handle leaks; the filter names the configured
    address; the first console is found.
  \<^item> \<^verbatim>\<open>Logging\<close>, \<^verbatim>\<open>Config_Store\<close>, \<^verbatim>\<open>Events\<close>: the level gate and line format; paths, loading and saving with
    partial writes; the three emitters behind one locale \<open>emitter\<close>, the asynchronous one as a step
    relation of its background goroutine. Shown: what is printed; that a saved configuration is the
    one loaded; that lines are whole and in order, at most 64 events wait, and a close writes them.
  \<^item> \<^verbatim>\<open>Bridge_Stats\<close>, \<^verbatim>\<open>Bridge\<close>, \<^verbatim>\<open>Bridge_Behaviour\<close>, \<^verbatim>\<open>Bridge_Traffic\<close> (\<^verbatim>\<open>bridge.go\<close>): statistics, handlers, the
    body of every loop, connecting and tearing down. Shown: an invariant kept by all of them; which
    datagrams can change the bridge; the path of a frame; the shared receive buffer; the ping and
    pong accounting.
  \<^item> \<^verbatim>\<open>Bridge_Run\<close> and \<^verbatim>\<open>Bridge_Shutdown\<close> (\<^verbatim>\<open>bridge.go\<close>, \<open>Run\<close>): the seven goroutines and their caller as
    one step relation over a shared state, any interleaving. Encoding and sending are separate steps,
    as the source has no lock over both. Shown: the invariant of every reachable state and what holds
    when \<open>Run\<close> has returned; that a shutdown ends under every schedule; four races of the code.
  \<^item> \<^verbatim>\<open>Tunnel\<close>: two bridges and a network that loses datagrams refine an abstract lossy link.
  \<^item> \<^verbatim>\<open>Command_Line\<close> and \<^verbatim>\<open>Main_Loop\<close> (\<^verbatim>\<open>main.go\<close>): flag parsing, every command, start-up, discovery, the
    connection loop and the end of the process. Shown: what is given on the command line is what
    runs; when start-up fails; that a discovered address is remembered; that the program never
    reconnects.
  \<^item> This theory: from a handshake of two processes to a working link.

  \<^bold>\<open>Bounds and fuel.\<close> The JSON reader takes twice the length of the document as fuel, and the theory
  \<^verbatim>\<open>Json\<close> proves that more changes nothing. Decimal exponents are searched up to 400, above the range of
  binary64, and 17 digits are tried, which identify every binary64 value. SHA-256 is computed for any
  length of input, with a 64-bit length field. The bound of 791 steps for a shutdown
  follows from the capacity of the two channels (256 each). Statements about whole sessions assume
  that the 64-bit nonce does not wrap in the session.

  \<^bold>\<open>Assumptions about code outside \<^verbatim>\<open>src/\<close>.\<close> The pcap library is a parameter. The only laws used are
  named as hypotheses where they are used: reading through a nil handle panics, an injection of a
  frame of legal size succeeds, a read returns.

  \<^bold>\<open>Not modelled.\<close>

  \<^item> Log messages written by the components, and diagnostics on standard error: the logger itself is
    modelled, its callers' texts are not, as nothing in the program depends on them.
  \<^item> The delivery of signals and the blocked reader of standard input: a cancellation and a request for
    statistics may happen at any time.
  \<^item> Torn reads and the rest of Go's memory model: each step of a goroutine is atomic. Where the source
    reads shared data without its lock (the receive buffer, the handle of the capture), the steps are
    split so that the interleaving shows.
  \<^item> Real time: timers tick at any moment, so no statement bounds a duration.
  \<^item> Strings are ASCII where the source folds case; Unicode folding is not modelled.
  \<^item> \<^verbatim>\<open>tools.go\<close> (an import for the build tool, no code), the tests, and the deployment files.
\<close>

section \<open>From two processes to a link\<close>

text \<open>The two halves of the handshake, each with the one datagram that completes it.\<close>

lemma listener_answers:
  assumes "mode t = ModeListen" and "conn t = Some k" and "\<not> conn_closed k"
    and "Decode d hello = (d, Ret ((new_Message MsgHello)\<lparr>Version := 1, Challenge := ch\<rparr>))"
    and "EncodeHelloAck (ResetRecvNonce d) ch = (d', ack)"
  shows "WaitForPeer [\<lparr>w_done = False, w_read = read_result.ReadPacket hello ca, w_write = True\<rparr>] t d =
     ((t\<lparr>peerAddr := Some ca, challenge := ch, conn := Some (k\<lparr>conn_sent := conn_sent k @ [(ack, ca)]\<rparr>), connected := True\<rparr>, d'),
      Some None)"
  using assms by (simp add: WaitForPeer_def WaitForPeer_iter.simps ReadFromUDP_def WriteToUDP_def new_Message_def Let_def)

lemma connector_accepts:
  assumes "conn t = Some k" and "\<not> conn_closed k" and "peerAddr t = Some la"
    and "EncodeHello (Some r) c = (c', Ret (hello, ch))"
    and "Decode c' ack = (c', Ret ((new_Message MsgHelloAck)\<lparr>Version := 1, Response := re\<rparr>))"
    and "VerifyChallengeResponse c' ch re"
  shows "attemptHandshake \<lparr>a_rand = Some r, a_write = True,
       a_obs = [\<lparr>h_before = True, h_done = False, h_read = read_result.ReadPacket ack la\<rparr>]\<rparr> t c =
     ((t\<lparr>challenge := ch, conn := Some (k\<lparr>conn_sent := conn_sent k @ [(hello, la)]\<rparr>), connected := True\<rparr>, ResetRecvNonce c'),
      Some None)"
  using assms by (simp add: attemptHandshake_def attemptHandshake_iter.simps ReadFromUDP_def WriteToUDP_def new_Message_def Let_def)

text \<open>After the exchange both windows are open for the next messages of the other side.\<close>

lemma handshake_links:
  assumes "paired c d" and "EncodeHello (Some r) c = (c', Ret (hello, ch))" and "EncodeHelloAck (ResetRecvNonce d) ch' = (d', ack)"
    and "secureMode c \<longrightarrow> unat (sendNonce c) + Suc n < 2 ^ 64 \<and> unat (sendNonce d) + Suc n < 2 ^ 64"
  shows "link_ok n (ResetRecvNonce c') d'" and "link_ok n d' (ResetRecvNonce c')"
proof -
  have "unat (sendNonce c + 1) = unat (sendNonce c) + 1" "unat (sendNonce d + 1) = unat (sendNonce d) + 1" if "secureMode c"
    using that assms(4) nonce_step(2) [of "sendNonce c" "sendNonce c"] nonce_step(2) [of "sendNonce d" "sendNonce d"] by auto
  then show "link_ok n (ResetRecvNonce c') d'" "link_ok n d' (ResetRecvNonce c')"
    using assms
    by (cases "secureMode c"; auto simp: link_ok_def paired_def EncodeHello_Some EncodeHelloAck_def
        encode_secure encode_insecure ResetRecvNonce_def Let_def)+
qed

text \<open>
  C1. Two peers with the same key (or both without one) get from a handshake to a working link:
  the HELLO that the connector's attempt writes makes the waiting listener return connected to the
  connector, the HELLO_ACK that the listener writes makes the attempt return connected, and from
  then on both transports are up and each receiver accepts the next \<open>n\<close> messages of the other, as
  far as the nonce space reaches. Any counters from earlier sessions are allowed.
\<close>

theorem session_established:
  assumes "paired c d" and "mode tn = ModeListen" and "conn_open tn" and "\<not> closed tn"
    and "conn_open tk" and "\<not> closed tk" and "peerAddr tk = Some la"
    and "secureMode c \<longrightarrow> unat (sendNonce c) + Suc n < 2 ^ 64 \<and> unat (sendNonce d) + Suc n < 2 ^ 64"
  shows "\<exists>hello ack tk' c' tn' d' k1 k2.
     attemptHandshake \<lparr>a_rand = Some r, a_write = True,
         a_obs = [\<lparr>h_before = True, h_done = False, h_read = read_result.ReadPacket ack la\<rparr>]\<rparr> tk c =
       ((tk', c'), Some None) \<and>
     WaitForPeer [\<lparr>w_done = False, w_read = read_result.ReadPacket hello ca, w_write = True\<rparr>] tn d =
       ((tn', d'), Some None) \<and>
     conn tk' = Some k1 \<and> last (conn_sent k1) = (hello, la) \<and>
     conn tn' = Some k2 \<and> last (conn_sent k2) = (ack, ca) \<and>
     link_up tk' \<and> link_up tn' \<and> peerAddr tn' = Some ca \<and> link_ok n c' d' \<and> link_ok n d' c'"
proof -
  obtain c1 hello ch where h: "EncodeHello (Some r) c = (c1, Ret (hello, ch))"
    by (simp add: EncodeHello_Some)
  obtain d1 ack where k: "EncodeHelloAck (ResetRecvNonce d) ch = (d1, ack)" by fastforce
  obtain d0 ack0 where k0: "EncodeHelloAck d ch = (d0, ack0)" by fastforce
  have dh: "Decode d hello = (d, Ret ((new_Message MsgHello)\<lparr>Version := 1, Challenge := ch\<rparr>))"
    using handshake_exchange [OF assms(1) h k0] by blast
  have "paired c (ResetRecvNonce d)" using assms(1) by (simp add: paired_def)
  then obtain re where da: "Decode c1 ack = (c1, Ret ((new_Message MsgHelloAck)\<lparr>Version := 1, Response := re\<rparr>))"
    and v: "VerifyChallengeResponse c1 ch re"
    using handshake_exchange [OF _ h k] by blast
  obtain kl kk where conns: "conn tn = Some kl" "\<not> conn_closed kl" "conn tk = Some kk" "\<not> conn_closed kk"
    using assms(3,5) by (auto simp: conn_open_def)
  let ?tn = "tn\<lparr>peerAddr := Some ca, challenge := ch, conn := Some (kl\<lparr>conn_sent := conn_sent kl @ [(ack, ca)]\<rparr>), connected := True\<rparr>"
  let ?tk = "tk\<lparr>challenge := ch, conn := Some (kk\<lparr>conn_sent := conn_sent kk @ [(hello, la)]\<rparr>), connected := True\<rparr>"
  have "link_up ?tk" "link_up ?tn"
    using conns assms(4,6,7) by (simp_all add: link_up_def conn_open_def)
  then show ?thesis
    using listener_answers [OF assms(2) conns(1,2) dh k, of ca] connector_accepts [OF conns(3,4) assms(7) h da v]
      handshake_links [OF assms(1) h k assms(8)]
    by (intro exI [of _ hello] exI [of _ ack] exI [of _ ?tk] exI [of _ "ResetRecvNonce c1"] exI [of _ ?tn] exI [of _ d1]) simp
qed

theorem session_established_witness:
  "\<exists>hello ack tk' c' tn' d'.
     attemptHandshake \<lparr>a_rand = Some [9], a_write = True,
         a_obs = [\<lparr>h_before = True, h_done = False, h_read = read_result.ReadPacket ack sample_addr\<rparr>]\<rparr>
       ((sample_transport ModeConnect)\<lparr>connected := False\<rparr>) (NewCodec [7]) = ((tk', c'), Some None) \<and>
     WaitForPeer [\<lparr>w_done = False, w_read = read_result.ReadPacket hello sample_addr, w_write = True\<rparr>]
       ((sample_transport ModeListen)\<lparr>connected := False, peerAddr := None\<rparr>) (NewCodec [7]) = ((tn', d'), Some None) \<and>
     link_up tk' \<and> link_up tn' \<and> link_ok 1000 c' d'"
proof -
  let ?k = "(sample_transport ModeConnect)\<lparr>connected := False\<rparr>"
  let ?l = "(sample_transport ModeListen)\<lparr>connected := False, peerAddr := None\<rparr>"
  have "conn_open ?k" "conn_open ?l"
    by (simp_all add: conn_open_def sample_transport_def new_UDPConn_def)
  moreover have "mode ?l = ModeListen" "\<not> closed ?l" "\<not> closed ?k" "peerAddr ?k = Some sample_addr"
    "secureMode (NewCodec [7]) \<longrightarrow> unat (sendNonce (NewCodec [7])) + Suc 1000 < 2 ^ 64 \<and>
       unat (sendNonce (NewCodec [7])) + Suc 1000 < 2 ^ 64"
    by (simp_all add: sample_transport_def NewCodec_def)
  ultimately show ?thesis
    using session_established [of "NewCodec [7]" "NewCodec [7]" ?l ?k sample_addr 1000 "[9]" sample_addr]
    using NewCodec_paired by blast
qed

end
